(* ===== verification/Prelude.thy ===== *)
theory Prelude
  imports Main "HOL-Library.Word" "HOL-Library.Multiset"
begin

text \<open>
  Shared vocabulary of the development: the types that stand for Go's machine integers
  and timestamps, the named collections of facts the component theories extend, and
  generic lemmas on lists, sums, options and maps that several components use (grouping
  a sum by a key, the first match of \<open>find\<close>, folds over appended lists).
\<close>

section \<open>Types shared by the model\<close>

text \<open>
  Go's \<open>int\<close> is a 64-bit two's-complement integer on every platform the tool targets;
  \<open>+\<close> and \<open>++\<close> wrap around. It is modelled as \<open>64 word\<close>, read signed with
  \<open>sint\<close>. A \<open>time.Time\<close> is only passed through and compared by the provider, so
  it is modelled as an integer timestamp.
\<close>

type_synonym go_int = "64 word"
type_synonym time = int

named_theorems model_defs "definitions unfolded to evaluate the model on concrete inputs"
named_theorems inv_simps "facts that discharge the invariant obligations of the step relations"

section \<open>Results wrapped in options\<close>

text \<open>
  A call that may not return gives \<open>('e + 'a) option\<close>; its error is wrapped and its
  value converted by \<open>map_option (case_sum \<dots>)\<close>, as Go's \<open>fmt.Errorf("...: %w", err)\<close>.
\<close>

lemma case_sum_wrap_Inr [simp]:
  "((case z of Inl e \<Rightarrow> Inl (f e) | Inr x \<Rightarrow> Inr (g x)) = Inr y) = (\<exists>x. z = Inr x \<and> y = g x)"
  by (cases z) auto

lemma case_sum_wrap_Inl [simp]:
  "((case z of Inl e \<Rightarrow> Inl (f e) | Inr x \<Rightarrow> Inr (g x)) = Inl y) = (\<exists>e. z = Inl e \<and> y = f e)"
  by (cases z) auto

section \<open>Lists\<close>

lemma find_Some_mem [intro]:
  "find P xs = Some x \<Longrightarrow> x \<in> set xs"
  by (induction xs) (auto split: if_splits)

lemma find_Some_holds:
  "find P xs = Some x \<Longrightarrow> P x"
  by (induction xs) (auto split: if_splits)

lemma find_None_iff':
  "(find P xs = None) = (\<forall>x \<in> set xs. \<not> P x)"
  by (induction xs) auto

lemma find_key_None_iff:
  "(find (\<lambda>b. f b = n) xs = None) = (n \<notin> set (map f xs))"
  by (induction xs) auto

lemma map_filter_Cons_Some [simp]:
  "f x = Some y \<Longrightarrow> List.map_filter f (x # xs) = y # List.map_filter f xs"
  by (simp add: map_filter_simps)

lemma map_filter_Cons_None [simp]:
  "f x = None \<Longrightarrow> List.map_filter f (x # xs) = List.map_filter f xs"
  by (simp add: map_filter_simps)

lemma map_filter_append' [simp]:
  "List.map_filter f (xs @ ys) = List.map_filter f xs @ List.map_filter f ys"
  by (induction xs) (auto simp: map_filter_simps split: option.splits)

lemma fold_concat_nested:
  "fold f (concat xss) = fold (fold f) xss"
  by (induction xss) simp_all

lemma sum_list_map_update:
  fixes f :: "'a \<Rightarrow> nat"
  shows "i < length xs \<Longrightarrow> sum_list (map f (xs[i := x])) + f (xs ! i) = sum_list (map f xs) + f x"
proof (induction xs arbitrary: i)
  case Nil
  then show ?case by simp
next
  case (Cons y ys)
  then show ?case by (cases i) simp_all
qed

lemma mset_map_filter_mset:
  "mset xs = mset ys \<Longrightarrow> mset (List.map_filter f xs) = mset (List.map_filter f ys)"
  by (simp add: map_filter_def)

lemma map_filter_cong':
  "(\<And>x. x \<in> set xs \<Longrightarrow> f x = g x) \<Longrightarrow> List.map_filter f xs = List.map_filter g xs"
  by (induction xs) (simp_all add: map_filter_simps split: option.splits)

lemma length_map_filter_le:
  "length (List.map_filter f xs) \<le> length xs"
  by (induction xs) (simp_all add: map_filter_simps split: option.splits)

lemma distinct_two:
  assumes "distinct xs" and "set xs = {a, b}" and "a \<noteq> b"
  shows "xs = [a, b] \<or> xs = [b, a]"
proof -
  have "length xs = 2" using assms by (metis distinct_card card_2_iff)
  then obtain x y where "xs = [x, y]" by (auto simp: numeral_2_eq_2 length_Suc_conv)
  with assms show ?thesis by (auto simp: doubleton_eq_iff)
qed

lemma mset_map_filter_distinct:
  "distinct xs \<Longrightarrow>
   mset (List.map_filter f xs) = (\<Sum>x \<in> set xs. case f x of None \<Rightarrow> {#} | Some y \<Rightarrow> {#y#})"
  by (induction xs) (auto simp: map_filter_simps split: option.splits)

section \<open>Sums over the domain of a finite map\<close>

lemma sum_dom_upd:
  assumes "finite (dom m)"
  shows "(\<Sum>k\<in>dom (m(f \<mapsto> v)). g (the ((m(f \<mapsto> v)) k)))
         = g v + (\<Sum>k\<in>dom m - {f}. g (the (m k)))"
proof -
  let ?h = "\<lambda>k. g (the ((m(f \<mapsto> v)) k))"
  from assms have fin: "finite (dom m - {f})" by simp
  have dom: "dom (m(f \<mapsto> v)) = insert f (dom m - {f})" by auto
  have "sum ?h (insert f (dom m - {f})) = ?h f + sum ?h (dom m - {f})"
    by (rule sum.insert [OF fin]) simp
  also have "sum ?h (dom m - {f}) = (\<Sum>k\<in>dom m - {f}. g (the (m k)))"
    by (rule sum.cong) auto
  finally show ?thesis by (simp only: dom) simp
qed

lemma sum_dom_split:
  assumes "finite (dom m)"
  shows "(\<Sum>k\<in>dom m. g (the (m k)))
         = (case m f of None \<Rightarrow> 0 | Some u \<Rightarrow> g u) + (\<Sum>k\<in>dom m - {f}. g (the (m k)))"
proof (cases "m f")
  case None
  then have "dom m - {f} = dom m" by auto
  with None show ?thesis by simp
next
  case (Some u)
  then have "f \<in> dom m" by auto
  with Some assms show ?thesis by (simp add: sum.remove)
qed

text \<open>
  Replacing the entry at \<open>f\<close> by one that is larger by \<open>d\<close> (a missing entry
  counting as \<open>0\<close>) makes the sum over the map larger by \<open>d\<close>.
\<close>

lemma sum_dom_upd_bump:
  fixes g :: "'b \<Rightarrow> 'c::comm_monoid_add"
  assumes fin: "finite (dom m)"
    and v: "g v = (case m f of None \<Rightarrow> 0 | Some u \<Rightarrow> g u) + d"
  shows "(\<Sum>k\<in>dom (m(f \<mapsto> v)). g (the ((m(f \<mapsto> v)) k))) = (\<Sum>k\<in>dom m. g (the (m k))) + d"
proof -
  have "(\<Sum>k\<in>dom (m(f \<mapsto> v)). g (the ((m(f \<mapsto> v)) k)))
        = g v + (\<Sum>k\<in>dom m - {f}. g (the (m k)))"
    using fin by (rule sum_dom_upd)
  also have "\<dots> = (case m f of None \<Rightarrow> 0 | Some u \<Rightarrow> g u) + (\<Sum>k\<in>dom m - {f}. g (the (m k))) + d"
    by (simp add: v add_ac)
  also have "\<dots> = (\<Sum>k\<in>dom m. g (the (m k))) + d"
    using sum_dom_split [OF fin, of g f] by simp
  finally show ?thesis .
qed

section \<open>Sums grouped by a key\<close>

text \<open>
  A sum over a list equals the sum, over the keys that occur, of the sums of the
  sublists with one key. This is the arithmetic behind every per-key rollup of the
  aggregator; it holds in any commutative monoid, so also for wrapping \<open>64 word\<close>
  counters.
\<close>

lemma sum_list_filter_key_Cons:
  fixes g :: "'a \<Rightarrow> 'b::comm_monoid_add"
  shows "(\<Sum>k\<in>insert (h x) (set (map h xs)). sum_list (map g (filter (\<lambda>y. h y = k) (x # xs))))
       = g x + (\<Sum>k\<in>set (map h xs). sum_list (map g (filter (\<lambda>y. h y = k) xs)))"
proof (cases "h x \<in> set (map h xs)")
  case True
  then have ins: "insert (h x) (set (map h xs)) = set (map h xs)" by blast
  have "(\<Sum>k\<in>set (map h xs). sum_list (map g (filter (\<lambda>y. h y = k) (x # xs))))
      = (\<Sum>k\<in>set (map h xs). (if k = h x then g x else 0) + sum_list (map g (filter (\<lambda>y. h y = k) xs)))"
    by (rule sum.cong) auto
  also have "\<dots> = (\<Sum>k\<in>set (map h xs). if k = h x then g x else 0)
                 + (\<Sum>k\<in>set (map h xs). sum_list (map g (filter (\<lambda>y. h y = k) xs)))"
    by (rule sum.distrib)
  also have "(\<Sum>k\<in>set (map h xs). if k = h x then g x else 0) = g x"
    using True by (simp add: sum.delta)
  finally show ?thesis using ins by simp
next
  case False
  then have "(\<Sum>k\<in>set (map h xs). sum_list (map g (filter (\<lambda>y. h y = k) (x # xs))))
      = (\<Sum>k\<in>set (map h xs). sum_list (map g (filter (\<lambda>y. h y = k) xs)))"
    by (intro sum.cong) auto
  moreover have "filter (\<lambda>y. h y = h x) xs = []"
    using False by (auto simp: filter_empty_conv image_iff)
  ultimately show ?thesis using False by simp
qed

lemma sum_list_group_by:
  fixes g :: "'a \<Rightarrow> 'b::comm_monoid_add"
  shows "sum_list (map g xs) = (\<Sum>k\<in>set (map h xs). sum_list (map g (filter (\<lambda>y. h y = k) xs)))"
proof (induction xs)
  case Nil
  then show ?case by simp
next
  case (Cons x xs)
  then show ?case using sum_list_filter_key_Cons [where h=h and x=x and xs=xs and g=g] by simp
qed

lemma of_nat_length_sum_list:
  "(of_nat (length xs) :: 'b::semiring_1) = sum_list (map (\<lambda>_. 1) xs)"
  by (induction xs) simp_all

lemma sum_list_map_mset_eq:
  fixes g :: "'a \<Rightarrow> 'b::comm_monoid_add"
  assumes "mset xs = mset ys"
  shows "sum_list (map g xs) = sum_list (map g ys)"
proof -
  from assms have "mset (map g xs) = mset (map g ys)" by simp
  then have "sum_mset (mset (map g xs)) = sum_mset (mset (map g ys))" by (rule arg_cong)
  then show ?thesis by (simp only: sum_mset_sum_list)
qed

section \<open>Go's int read back as an integer\<close>

text \<open>A 64-bit counter that never passed \<open>2^63 - 1\<close> reads back signed as its value.\<close>

lemma sint_of_nat_small:
  assumes "n < 2 ^ 63"
  shows "sint (of_nat n :: go_int) = int n"
proof -
  have "n < 2 ^ 64" using assms by simp
  then have "uint (of_nat n :: go_int) = int n"
    by (simp add: unsigned_of_nat take_bit_nat_eq_self)
  moreover have "signed_take_bit 63 (int n) = int n"
    using assms by (intro signed_take_bit_int_eq_self) simp_all
  ultimately show ?thesis by (simp add: sint_uint)
qed

end
