(* ===== verification/Models.thy ===== *)
theory Models
  imports Prelude
begin

text \<open>
  The data model of \<^verbatim>\<open>internal/models\<close> (the structs \<open>Repository\<close>, \<open>Branch\<close>,
  \<open>Commit\<close>, \<open>Author\<close>, \<open>CommitStats\<close>, \<open>Report\<close>, \<open>Period\<close>,
  \<open>ContributorStats\<close>, \<open>RepositoryStats\<close>) as records, one field per struct field,
  with Go's \<open>int\<close> as \<open>go_int\<close> and \<open>map[string]T\<close> as a map
  \<open>string \<rightharpoonup> T\<close>; and the errors the reporter and the client build with
  \<open>fmt.Errorf\<close>, as a datatype with one constructor per message.
  Field names carry the struct's name as prefix, since record fields are global
  constants in HOL.
\<close>

section \<open>Records of the data model\<close>

record author =
  author_name :: string
  author_email :: string
  author_login :: string

record commit_stats =
  stat_additions :: go_int
  stat_deletions :: go_int
  stat_total :: go_int

record commit =
  commit_sha :: string
  commit_message :: string
  commit_author :: author
  commit_date :: time
  commit_stats :: commit_stats

record branch =
  branch_name :: string
  branch_sha :: string
  branch_commits :: "commit list"

record repository =
  repo_name :: string
  repo_full_name :: string
  repo_url :: string
  repo_default_branch :: string
  repo_branches :: "branch list"

record period =
  period_since :: time
  period_until :: time

record repository_stats =
  rs_commits :: go_int
  rs_additions :: go_int
  rs_deletions :: go_int

record contributor_stats =
  cs_name :: string
  cs_email :: string
  cs_login :: string
  total_commits :: go_int
  total_additions :: go_int
  total_deletions :: go_int
  cs_repositories :: "string \<rightharpoonup> repository_stats"

type_synonym summary = "string \<rightharpoonup> contributor_stats"

record report =
  report_target :: string
  report_period :: period
  report_repositories :: "repository list"
  report_summary :: summary

section \<open>Errors\<close>

text \<open>
  An error of the GitHub SDK (transport, authorisation, not found, cancelled context) is
  opaque to the program: it is only wrapped and logged. The program's own errors are the
  \<open>fmt.Errorf\<close> calls of \<^verbatim>\<open>github.go\<close> and \<^verbatim>\<open>reporter.go\<close>, each a constructor
  that keeps what the message interpolates, and the error of \<open>json.MarshalIndent\<close>
  that the JSON writer returns unwrapped (\<open>JsonMarshalFailed\<close>), and the
  \<open>*os.PathError\<close> of \<open>os.Create\<close> (\<open>CreateFailed\<close>) and of a failed write
  (\<open>WriteFailed\<close>), each keeping the path it names.
\<close>

datatype api_error = ApiError string

datatype error =
    InvalidRepoName string
  | ListBranchesFailed string string api_error
  | ListCommitsFailed string string string api_error
  | ListUserReposFailed api_error
  | RepositoryFailed string error
  | ListReposFailed error
  | UnsupportedFormat string
  | JsonMarshalFailed
  | CreateFailed string
  | WriteFailed string

type_synonym 'a result = "error + 'a"

section \<open>Fixtures\<close>

text \<open>
  Shorthands for the records the tests of \<^verbatim>\<open>reporter_test.go\<close> build, used by the
  scenario theorems: fields the tests leave out are Go's zero values.
\<close>

abbreviation mk_author :: "string \<Rightarrow> string \<Rightarrow> string \<Rightarrow> author" where
  "mk_author n e l \<equiv> \<lparr>author_name = n, author_email = e, author_login = l\<rparr>"

abbreviation mk_commit :: "string \<Rightarrow> author \<Rightarrow> go_int \<Rightarrow> go_int \<Rightarrow> commit" where
  "mk_commit h a x y \<equiv>
     \<lparr>commit_sha = h, commit_message = [], commit_author = a, commit_date = 0,
      commit_stats = \<lparr>stat_additions = x, stat_deletions = y, stat_total = x + y\<rparr>\<rparr>"

abbreviation mk_branch :: "string \<Rightarrow> commit list \<Rightarrow> branch" where
  "mk_branch n cs \<equiv> \<lparr>branch_name = n, branch_sha = [], branch_commits = cs\<rparr>"

abbreviation mk_repo :: "string \<Rightarrow> branch list \<Rightarrow> repository" where
  "mk_repo fn bs \<equiv>
     \<lparr>repo_name = [], repo_full_name = fn, repo_url = [], repo_default_branch = [],
      repo_branches = bs\<rparr>"

end
