(* ===== verification/BranchSelect.thy ===== *)
theory BranchSelect
  imports Models
begin

text \<open>
  The branch selector, \<open>Reporter.selectBranchesToProcess\<close> of
  \<^verbatim>\<open>internal/reporter/reporter.go\<close> (staged in \<^verbatim>\<open>src/internal/models/types.go\<close>,
  lines 462--490). It picks the default branch (the first branch with that name), then
  each name of the fixed list \<open>importantBranches\<close> that is not yet picked, again the
  first branch with that name. The Go \<open>map[string]bool\<close> of picked names is a
  function \<open>string \<Rightarrow> bool\<close> that is \<open>False\<close> where unset, the inner
  \<open>for \<dots> break\<close> loops are \<open>find\<close>, and the outer loop is a \<open>fold\<close>.

  The theory proves a closed form of the result
  (\<open>select_branches_to_process_eq\<close>), and from it that the picked names depend only on
  the set of input names, that the selector is idempotent, that it picks only input
  branches, at most seven of them and with distinct names.
\<close>

section \<open>Definitions\<close>

definition important_branches :: "string list" where
  "important_branches = [''main'', ''master'', ''develop'', ''dev'', ''staging'', ''production'']"

text \<open>The first loop: the default branch, if present, and the map that records it.\<close>

definition select_default :: "branch list \<Rightarrow> string \<Rightarrow> branch list \<times> (string \<Rightarrow> bool)" where
  "select_default bs d =
     (case find (\<lambda>b. branch_name b = d) bs of
        Some b \<Rightarrow> ([b], (\<lambda>_. False)(branch_name b := True))
      | None \<Rightarrow> ([], (\<lambda>_. False)))"

text \<open>One iteration of the second loop, for the important name \<open>ib\<close>.\<close>

definition select_important ::
  "branch list \<Rightarrow> string \<Rightarrow> branch list \<times> (string \<Rightarrow> bool) \<Rightarrow> branch list \<times> (string \<Rightarrow> bool)" where
  "select_important bs ib st =
     (case st of (sel, seen) \<Rightarrow>
        if \<not> seen ib then
          (case find (\<lambda>b. branch_name b = ib) bs of
             Some b \<Rightarrow> (sel @ [b], seen(branch_name b := True))
           | None \<Rightarrow> (sel, seen))
        else (sel, seen))"

definition select_branches_to_process :: "branch list \<Rightarrow> string \<Rightarrow> branch list" where
  "select_branches_to_process bs d =
     fst (fold (select_important bs) important_branches (select_default bs d))"

lemmas branch_select_defs [model_defs] =
  important_branches_def select_default_def select_important_def select_branches_to_process_def

section \<open>The closed form\<close>

text \<open>
  \<open>first_named bs n\<close> is the branch the inner loops find for the name \<open>n\<close>; the
  selected names in order are the default name and then the important names other than
  it.
\<close>

abbreviation first_named :: "branch list \<Rightarrow> string \<Rightarrow> branch option" where
  "first_named bs n \<equiv> find (\<lambda>b. branch_name b = n) bs"

abbreviation candidate_names :: "string \<Rightarrow> string list" where
  "candidate_names d \<equiv> d # filter (\<lambda>n. n \<noteq> d) important_branches"

lemma first_named_name:
  "first_named bs n = Some b \<Longrightarrow> branch_name b = n"
  by (drule find_Some_holds) simp

lemmas first_named_None_iff = find_key_None_iff [where f = branch_name]

lemma distinct_important_branches: "distinct important_branches"
  by (simp add: important_branches_def)

text \<open>
  The loop invariant: after the names \<open>P\<close>, the selection is the first branch of
  each name of \<open>P\<close> that is present, and the map marks exactly those names.
\<close>

lemma fold_select_important:
  assumes "distinct L"
  shows "fold (select_important bs) L
           (List.map_filter (first_named bs) P, \<lambda>n. n \<in> set P \<and> first_named bs n \<noteq> None)
         = (List.map_filter (first_named bs) (P @ filter (\<lambda>n. n \<notin> set P) L),
            \<lambda>n. n \<in> set (P @ L) \<and> first_named bs n \<noteq> None)"
  using assms
proof (induction L arbitrary: P)
  case Nil
  then show ?case by simp
next
  case (Cons ib L)
  let ?P' = "P @ filter (\<lambda>n. n \<notin> set P) [ib]"
  have step: "select_important bs ib
                (List.map_filter (first_named bs) P, \<lambda>n. n \<in> set P \<and> first_named bs n \<noteq> None)
              = (List.map_filter (first_named bs) ?P', \<lambda>n. n \<in> set ?P' \<and> first_named bs n \<noteq> None)"
  proof (cases "first_named bs ib")
    case None
    then show ?thesis by (auto simp: select_important_def fun_eq_iff)
  next
    case (Some b)
    then have "branch_name b = ib" by (rule first_named_name)
    with Some show ?thesis by (auto simp: select_important_def fun_eq_iff)
  qed
  from Cons.prems have filt:
    "P @ filter (\<lambda>n. n \<notin> set P) (ib # L) = ?P' @ filter (\<lambda>n. n \<notin> set ?P') L"
    by (cases "ib \<in> set P") (auto intro!: filter_cong)
  have sets: "set (P @ ib # L) = set (?P' @ L)" by auto
  from Cons.prems have IH:
    "fold (select_important bs) L
       (List.map_filter (first_named bs) ?P', \<lambda>n. n \<in> set ?P' \<and> first_named bs n \<noteq> None)
     = (List.map_filter (first_named bs) (?P' @ filter (\<lambda>n. n \<notin> set ?P') L),
        \<lambda>n. n \<in> set (?P' @ L) \<and> first_named bs n \<noteq> None)"
    by (intro Cons.IH) simp
  show ?case by (simp only: fold_Cons comp_def step IH filt sets)
qed

lemma select_default_eq:
  "select_default bs d
     = (List.map_filter (first_named bs) [d], \<lambda>n. n \<in> set [d] \<and> first_named bs n \<noteq> None)"
proof (cases "first_named bs d")
  case None
  then show ?thesis by (auto simp: select_default_def)
next
  case (Some b)
  then have "branch_name b = d" by (rule first_named_name)
  with Some show ?thesis by (auto simp: select_default_def fun_eq_iff)
qed

text \<open>
  The selection is the first branch of each candidate name that occurs in the input, in
  the order of the candidates: the default name first, then the important names.
\<close>

lemma select_branches_to_process_eq:
  "select_branches_to_process bs d = List.map_filter (first_named bs) (candidate_names d)"
proof -
  have "fold (select_important bs) important_branches (select_default bs d)
        = (List.map_filter (first_named bs) ([d] @ filter (\<lambda>n. n \<notin> set [d]) important_branches),
           \<lambda>n. n \<in> set ([d] @ important_branches) \<and> first_named bs n \<noteq> None)"
    unfolding select_default_eq
    by (rule fold_select_important [OF distinct_important_branches])
  then show ?thesis by (simp add: select_branches_to_process_def)
qed

section \<open>Consequences of the closed form\<close>

lemma map_name_map_filter_first_named:
  "map branch_name (List.map_filter (first_named bs) ns)
     = filter (\<lambda>n. n \<in> set (map branch_name bs)) ns"
proof (induction ns)
  case Nil
  then show ?case by simp
next
  case (Cons n ns)
  show ?case
  proof (cases "first_named bs n")
    case None
    have "n \<notin> set (map branch_name bs)" using None first_named_None_iff [of n bs] by blast
    with None Cons.IH show ?thesis by simp
  next
    case (Some b)
    then have "branch_name b = n" and "b \<in> set bs" by (auto dest: first_named_name)
    with Some Cons.IH show ?thesis by auto
  qed
qed

lemma select_names:
  "map branch_name (select_branches_to_process bs d)
     = filter (\<lambda>n. n \<in> set (map branch_name bs)) (candidate_names d)"
  by (simp only: select_branches_to_process_eq map_name_map_filter_first_named)

lemma set_map_filter_first_named:
  "set (List.map_filter (first_named bs) ns) \<subseteq> set bs"
  by (induction ns) (auto split: option.splits)

lemma distinct_candidate_names: "distinct (candidate_names d)"
  by (simp add: distinct_important_branches)

text \<open>Looking a name up in a selection made for distinct names finds the same branch.\<close>

lemma first_named_map_filter:
  "distinct ns \<Longrightarrow>
   first_named (List.map_filter (first_named bs) ns) n
     = (if n \<in> set ns then first_named bs n else None)"
proof (induction ns)
  case Nil
  then show ?case by simp
next
  case (Cons m ns)
  show ?case
  proof (cases "first_named bs m")
    case None
    with Cons show ?thesis by auto
  next
    case (Some b)
    then have "branch_name b = m" by (rule first_named_name)
    with Some Cons show ?thesis by auto
  qed
qed

section \<open>Properties of the branch selector\<close>

text \<open>
  C5 (functional). The selection is, in this order, the first branch named like the
  default branch and then the first branch of each important name other than the
  default, each only when the input has a branch of that name.
\<close>

theorem select_branches_to_process_spec:
  "select_branches_to_process bs d
     = List.map_filter (\<lambda>n. find (\<lambda>b. branch_name b = n) bs)
         (d # filter (\<lambda>n. n \<noteq> d) [''main'', ''master'', ''develop'', ''dev'', ''staging'', ''production''])"
  using select_branches_to_process_eq [of bs d] by (simp add: important_branches_def)

text \<open>
  C6 (equivalence). The names selected, and their order, depend only on the set of
  names in the input: permuting the branch list or repeating a branch does not change
  them.
\<close>

theorem select_names_set_invariant:
  assumes "set (map branch_name bs1) = set (map branch_name bs2)"
  shows "map branch_name (select_branches_to_process bs1 d)
         = map branch_name (select_branches_to_process bs2 d)"
  using assms by (simp only: select_names)

theorem select_names_set_invariant_witness:
  "set (map branch_name (map (\<lambda>n. \<lparr>branch_name = n, branch_sha = [], branch_commits = []\<rparr>) [''dev'', ''x'', ''main'', ''dev''])) =
   set (map branch_name (map (\<lambda>n. \<lparr>branch_name = n, branch_sha = [], branch_commits = []\<rparr>) [''main'', ''x'', ''dev'']))
   \<and> map branch_name (select_branches_to_process (map (\<lambda>n. \<lparr>branch_name = n, branch_sha = [], branch_commits = []\<rparr>) [''dev'', ''x'', ''main'', ''dev'']) ''x'')
     = map branch_name (select_branches_to_process (map (\<lambda>n. \<lparr>branch_name = n, branch_sha = [], branch_commits = []\<rparr>) [''main'', ''x'', ''dev'']) ''x'')"
proof -
  have h: "set (map branch_name (map (\<lambda>n. \<lparr>branch_name = n, branch_sha = [], branch_commits = []\<rparr>) [''dev'', ''x'', ''main'', ''dev''])) =
           set (map branch_name (map (\<lambda>n. \<lparr>branch_name = n, branch_sha = [], branch_commits = []\<rparr>) [''main'', ''x'', ''dev'']))" by auto
  show ?thesis using h select_names_set_invariant [OF h] by (rule conjI)
qed

text \<open>
  Selecting again from a selection, with the same default branch,
  gives the same selection.
\<close>

theorem select_branches_idempotent:
  "select_branches_to_process (select_branches_to_process bs d) d = select_branches_to_process bs d"
proof -
  let ?S = "List.map_filter (first_named bs) (candidate_names d)"
  have "\<And>n. n \<in> set (candidate_names d) \<Longrightarrow> first_named ?S n = first_named bs n"
    using first_named_map_filter [OF distinct_candidate_names] by simp
  then have "List.map_filter (first_named ?S) (candidate_names d)
             = List.map_filter (first_named bs) (candidate_names d)"
    by (rule map_filter_cong')
  then show ?thesis by (simp only: select_branches_to_process_eq)
qed

text \<open>
  C8 (bounds). The selector bounds the API calls of a repository: it returns at most
  seven branches, all taken from the input, with pairwise distinct names.
\<close>

theorem select_branches_bounded:
  "length (select_branches_to_process bs d) \<le> 7
   \<and> set (select_branches_to_process bs d) \<subseteq> set bs
   \<and> distinct (map branch_name (select_branches_to_process bs d))"
proof (intro conjI)
  have "length (candidate_names d) \<le> 7"
    using length_filter_le [of "\<lambda>n. n \<noteq> d" important_branches]
    by (simp add: important_branches_def)
  then show "length (select_branches_to_process bs d) \<le> 7"
    using length_map_filter_le [of "first_named bs" "candidate_names d"]
    by (simp add: select_branches_to_process_eq)
  show "set (select_branches_to_process bs d) \<subseteq> set bs"
    unfolding select_branches_to_process_eq by (rule set_map_filter_first_named)
  show "distinct (map branch_name (select_branches_to_process bs d))"
    using distinct_candidate_names [of d] by (simp only: select_names distinct_filter)
qed

text \<open>
  The scenario of the spec and of the tests: from
  \<open>[feature/x, main, develop, master, feature/y]\<close> with default \<open>main\<close> the code
  selects \<open>[main, master, develop]\<close>, in the order of the important list. The spec's
  scenario expects \<open>[main, develop, master]\<close>.
\<close>

lemma select_branches_scenario:
  "map branch_name (select_branches_to_process
      (map (\<lambda>n. \<lparr>branch_name = n, branch_sha = [], branch_commits = []\<rparr>) [''feature/x'', ''main'', ''develop'', ''master'', ''feature/y'']) ''main'')
   = [''main'', ''master'', ''develop'']"
  by (simp add: branch_select_defs)

end
