(* ===== verification/Client.thy ===== *)
theory Client
  imports Models
begin

text \<open>
  The GitHub client of \<^verbatim>\<open>src/internal/client/github.go\<close>: \<open>ListRepositories\<close>
  with its fallback \<open>listUserRepositories\<close>, \<open>ListBranches\<close>, \<open>ListCommits\<close> and
  \<open>convertRepositories\<close>. The go-github SDK they call is an interface record
  \<open>github_api\<close>: one function per SDK call, each returning an SDK error or one page of
  items with the response's \<open>NextPage\<close> (\<open>0\<close> on the last page). The pagination loop
  \<open>for { ...; if resp.NextPage == 0 { break }; opt.Page = resp.NextPage }\<close> may run
  forever when the provider's page links cycle, so it is a
  \<^theory_text>\<open>partial_function (option)\<close>: \<open>None\<close> is a call that never returns. A
  fuel-bounded copy \<open>fetch_fuel\<close> is the proof device for its termination (the fuel
  that suffices when page numbers increase up to a last page); what the loop computes
  is specified independently by the big-step relation \<open>pages_chain\<close>.
\<close>

section \<open>The SDK boundary\<close>

record gh_repository =
  gr_name :: string
  gr_full_name :: string
  gr_html_url :: string
  gr_default_branch :: string
  gr_archived :: bool

record gh_branch =
  gb_name :: string
  gb_sha :: string

text \<open>
  A listed commit: its SHA, message, the git author's name, email and date, and the
  GitHub account (\<open>commit.GetAuthor()\<close>, \<open>nil\<close> for commits not linked to an
  account) as an option of its login.
\<close>

record gh_commit =
  gc_sha :: string
  gc_message :: string
  gc_author_name :: string
  gc_author_email :: string
  gc_author_date :: time
  gc_login :: "string option"

record gh_stats =
  gs_additions :: go_int
  gs_deletions :: go_int
  gs_total :: go_int

type_synonym 'a page = "api_error + 'a list \<times> nat"

record github_api =
  api_list_by_org :: "string \<Rightarrow> nat \<Rightarrow> gh_repository page"
  api_list_user :: "string \<Rightarrow> nat \<Rightarrow> gh_repository page"
  api_list_branches :: "string \<Rightarrow> string \<Rightarrow> nat \<Rightarrow> gh_branch page"
  api_list_commits :: "string \<Rightarrow> string \<Rightarrow> string \<Rightarrow> time \<Rightarrow> time \<Rightarrow> nat \<Rightarrow> gh_commit page"
  api_get_commit :: "string \<Rightarrow> string \<Rightarrow> string \<Rightarrow> api_error + gh_stats"

section \<open>NewGitHubClient\<close>

text \<open>
  \<open>NewGitHubClient(token)\<close> builds the SDK client over an OAuth2 transport carrying
  the token when one is given, and over the default (anonymous) transport otherwise.
  What the provider answers depends on the transport (rate limits, private
  repositories), so the caller picks the \<open>github_api\<close> per transport.
\<close>

datatype gh_transport = Anonymous | OAuth2 string

definition new_github_client :: "string \<Rightarrow> gh_transport" where
  "new_github_client token = (if token \<noteq> [] then OAuth2 token else Anonymous)"

section \<open>Pagination\<close>

text \<open>
  The loop shared by all four listing functions: request page \<open>p\<close> (the first request
  leaves \<open>opt.Page\<close> unset, that is \<open>0\<close>), append its items, stop at
  \<open>NextPage = 0\<close>, return the SDK error of any page (dropping what was collected).
\<close>

partial_function (option) fetch_pages ::
  "(nat \<Rightarrow> 'a page) \<Rightarrow> nat \<Rightarrow> 'a list \<Rightarrow> (api_error + 'a list) option" where
  "fetch_pages get p acc =
     (case get p of
        Inl e \<Rightarrow> Some (Inl e)
      | Inr (items, nxt) \<Rightarrow>
          if nxt = 0 then Some (Inr (acc @ items)) else fetch_pages get nxt (acc @ items))"

section \<open>Conversions\<close>

definition convert_repository :: "gh_repository \<Rightarrow> repository" where
  "convert_repository g =
     \<lparr>repo_name = gr_name g, repo_full_name = gr_full_name g, repo_url = gr_html_url g,
      repo_default_branch = gr_default_branch g, repo_branches = []\<rparr>"

definition convert_repositories :: "gh_repository list \<Rightarrow> repository list" where
  "convert_repositories gs = map convert_repository (filter (\<lambda>g. \<not> gr_archived g) gs)"

definition convert_branch :: "gh_branch \<Rightarrow> branch" where
  "convert_branch g = \<lparr>branch_name = gb_name g, branch_sha = gb_sha g, branch_commits = []\<rparr>"

definition convert_commit :: "gh_commit \<Rightarrow> gh_stats \<Rightarrow> commit" where
  "convert_commit g st =
     \<lparr>commit_sha = gc_sha g, commit_message = gc_message g,
      commit_author = \<lparr>author_name = gc_author_name g, author_email = gc_author_email g,
                       author_login = (case gc_login g of None \<Rightarrow> [] | Some l \<Rightarrow> l)\<rparr>,
      commit_date = gc_author_date g,
      commit_stats = \<lparr>stat_additions = gs_additions st, stat_deletions = gs_deletions st,
                      stat_total = gs_total st\<rparr>\<rparr>"

section \<open>The client operations\<close>

definition list_user_repositories :: "github_api \<Rightarrow> string \<Rightarrow> (repository list) result option" where
  "list_user_repositories api target =
     map_option (case_sum (\<lambda>e. Inl (ListUserReposFailed e)) (\<lambda>gs. Inr (convert_repositories gs)))
       (fetch_pages (api_list_user api target) 0 [])"

definition list_repositories :: "github_api \<Rightarrow> string \<Rightarrow> (repository list) result option" where
  "list_repositories api target =
     (case fetch_pages (api_list_by_org api target) 0 [] of
        None \<Rightarrow> None
      | Some (Inl _) \<Rightarrow> list_user_repositories api target
      | Some (Inr gs) \<Rightarrow> Some (Inr (convert_repositories gs)))"

definition list_branches :: "github_api \<Rightarrow> string \<Rightarrow> string \<Rightarrow> (branch list) result option" where
  "list_branches api owner repo =
     map_option (case_sum (\<lambda>e. Inl (ListBranchesFailed owner repo e)) (\<lambda>gs. Inr (map convert_branch gs)))
       (fetch_pages (api_list_branches api owner repo) 0 [])"

text \<open>
  The second loop of \<open>ListCommits\<close>: one \<open>GetCommit\<close> per listed commit for its
  statistics; a commit whose details fail is logged and left out.
\<close>

fun commit_details :: "github_api \<Rightarrow> string \<Rightarrow> string \<Rightarrow> gh_commit list \<Rightarrow> commit list" where
  "commit_details api owner repo [] = []"
| "commit_details api owner repo (g # gs) =
     (case api_get_commit api owner repo (gc_sha g) of
        Inl _ \<Rightarrow> commit_details api owner repo gs
      | Inr st \<Rightarrow> convert_commit g st # commit_details api owner repo gs)"

definition list_commits ::
  "github_api \<Rightarrow> string \<Rightarrow> string \<Rightarrow> string \<Rightarrow> time \<Rightarrow> time \<Rightarrow> (commit list) result option" where
  "list_commits api owner repo br since until =
     map_option (case_sum (\<lambda>e. Inl (ListCommitsFailed owner repo br e))
                          (\<lambda>gs. Inr (commit_details api owner repo gs)))
       (fetch_pages (api_list_commits api owner repo br since until) 0 [])"

lemmas client_defs [model_defs] =
  convert_repository_def convert_repositories_def convert_branch_def convert_commit_def
  list_user_repositories_def list_repositories_def list_branches_def list_commits_def

section \<open>Pagination with fuel\<close>

fun fetch_fuel :: "nat \<Rightarrow> (nat \<Rightarrow> 'a page) \<Rightarrow> nat \<Rightarrow> 'a list \<Rightarrow> (api_error + 'a list) option" where
  "fetch_fuel 0 get p acc = None"
| "fetch_fuel (Suc n) get p acc =
     (case get p of
        Inl e \<Rightarrow> Some (Inl e)
      | Inr (items, nxt) \<Rightarrow>
          if nxt = 0 then Some (Inr (acc @ items)) else fetch_fuel n get nxt (acc @ items))"

text \<open>
  What the loop computes, as a big-step relation independent of the loop: the result
  of following the \<open>NextPage\<close> links from page \<open>p\<close> is the error of the first
  failing page, or the items of all pages in order up to the one with \<open>NextPage = 0\<close>.
\<close>

inductive pages_chain :: "(nat \<Rightarrow> 'a page) \<Rightarrow> nat \<Rightarrow> api_error + 'a list \<Rightarrow> bool" for get where
  error: "get p = Inl e \<Longrightarrow> pages_chain get p (Inl e)"
| last: "get p = Inr (items, 0) \<Longrightarrow> pages_chain get p (Inr items)"
| next_ok: "get p = Inr (items, n) \<Longrightarrow> n \<noteq> 0 \<Longrightarrow> pages_chain get n (Inr rest) \<Longrightarrow>
             pages_chain get p (Inr (items @ rest))"
| next_error: "get p = Inr (items, n) \<Longrightarrow> n \<noteq> 0 \<Longrightarrow> pages_chain get n (Inl e) \<Longrightarrow>
               pages_chain get p (Inl e)"

lemma fetch_fuel_sound:
  "fetch_fuel n get p acc = Some r \<Longrightarrow> fetch_pages get p acc = Some r"
proof (induction n arbitrary: p acc)
  case 0
  then show ?case by simp
next
  case (Suc n)
  then show ?case
    by (subst fetch_pages.simps) (auto split: sum.splits prod.splits if_splits)
qed

lemma fetch_pages_complete:
  assumes ret: "fetch_pages get p acc = Some r"
  shows "\<exists>n. fetch_fuel n get p acc = Some r"
proof (rule fetch_pages.raw_induct
         [where P = "\<lambda>get p acc r. \<exists>n. fetch_fuel n get p acc = Some r", OF _ ret])
  fix f :: "(nat \<Rightarrow> 'a page) \<Rightarrow> nat \<Rightarrow> 'a list \<Rightarrow> (api_error + 'a list) option"
  fix get p acc r
  assume IH: "\<And>get p acc r. f get p acc = Some r \<Longrightarrow> \<exists>n. fetch_fuel n get p acc = Some r"
    and eq: "(case get p of
                Inl e \<Rightarrow> Some (Inl e)
              | Inr (items, nxt) \<Rightarrow>
                  if nxt = 0 then Some (Inr (acc @ items)) else f get nxt (acc @ items)) = Some r"
  show "\<exists>n. fetch_fuel n get p acc = Some r"
  proof (cases "get p")
    case (Inl e)
    with eq have "fetch_fuel (Suc 0) get p acc = Some r" by simp
    then show ?thesis by blast
  next
    case (Inr pg)
    obtain items nxt where pg: "pg = (items, nxt)" by (cases pg)
    show ?thesis
    proof (cases "nxt = 0")
      case True
      with eq Inr pg have "fetch_fuel (Suc 0) get p acc = Some r" by simp
      then show ?thesis by blast
    next
      case False
      with eq Inr pg have "f get nxt (acc @ items) = Some r" by simp
      then obtain n where "fetch_fuel n get nxt (acc @ items) = Some r" using IH by blast
      with False Inr pg have "fetch_fuel (Suc n) get p acc = Some r" by simp
      then show ?thesis by blast
    qed
  qed
qed

text \<open>
  With page numbers that increase up to a last page \<open>N\<close>, \<open>N - p + 1\<close> requests
  from page \<open>p\<close> reach the end.
\<close>

definition pages_bounded :: "(nat \<Rightarrow> 'a page) \<Rightarrow> nat \<Rightarrow> bool" where
  "pages_bounded get N \<longleftrightarrow>
     (\<forall>p items nxt. get p = Inr (items, nxt) \<longrightarrow> nxt = 0 \<or> (p < nxt \<and> nxt \<le> N))"

lemma fetch_fuel_bounded:
  assumes b: "pages_bounded get N"
  shows "p \<le> N \<Longrightarrow> N - p < n \<Longrightarrow> \<exists>r. fetch_fuel n get p acc = Some r"
proof (induction "N - p" arbitrary: p acc n rule: less_induct)
  case less
  from less.prems obtain m where n: "n = Suc m" by (cases n) auto
  show ?case
  proof (cases "get p")
    case (Inl e)
    then show ?thesis by (simp add: n)
  next
    case (Inr pg)
    obtain items nxt where pg: "pg = (items, nxt)" by (cases pg)
    show ?thesis
    proof (cases "nxt = 0")
      case True
      with Inr pg show ?thesis by (simp add: n)
    next
      case False
      with Inr pg b have nxt: "p < nxt" "nxt \<le> N" by (auto simp: pages_bounded_def)
      with less.prems n have "N - nxt < N - p" "N - nxt < m" by arith+
      with less.hyps nxt(2) obtain r where "fetch_fuel m get nxt (acc @ items) = Some r"
        by blast
      with False Inr pg show ?thesis by (simp add: n)
    qed
  qed
qed

lemma fetch_pages_terminates:
  assumes "pages_bounded get N"
  shows "\<exists>r. fetch_pages get 0 acc = Some r"
proof -
  obtain r where "fetch_fuel (Suc N) get 0 acc = Some r"
    using fetch_fuel_bounded [OF assms, of 0 "Suc N" acc] by auto
  then show ?thesis using fetch_fuel_sound by blast
qed

lemma list_branches_returns:
  "pages_bounded (api_list_branches api owner repo) N \<Longrightarrow> \<exists>r. list_branches api owner repo = Some r"
  using fetch_pages_terminates [of "api_list_branches api owner repo" N "[]"]
  by (auto simp: list_branches_def)

lemma list_commits_returns:
  "pages_bounded (api_list_commits api owner repo br since until) N \<Longrightarrow>
   \<exists>r. list_commits api owner repo br since until = Some r"
  using fetch_pages_terminates [of "api_list_commits api owner repo br since until" N "[]"]
  by (auto simp: list_commits_def)

lemma list_branches_Inl:
  "list_branches api owner repo = Some (Inl e) \<Longrightarrow> \<exists>ae. e = ListBranchesFailed owner repo ae"
  by (auto simp: list_branches_def)

lemma fetch_pages_Inr_set:
  "fetch_pages get p acc = Some (Inr xs) \<Longrightarrow> set acc \<subseteq> set xs"
proof -
  assume "fetch_pages get p acc = Some (Inr xs)"
  then obtain n where "fetch_fuel n get p acc = Some (Inr xs)" using fetch_pages_complete by blast
  then show ?thesis
    by (induction n get p acc rule: fetch_fuel.induct) (auto split: sum.splits prod.splits if_splits)
qed

lemma commit_details_stats:
  "c \<in> set (commit_details api owner repo gs) \<Longrightarrow>
   \<exists>g st. g \<in> set gs \<and> api_get_commit api owner repo (gc_sha g) = Inr st \<and> c = convert_commit g st"
  by (induction gs) (auto split: sum.splits)

lemma fetch_fuel_chain:
  "fetch_fuel n get p acc = Some r \<Longrightarrow> \<exists>r'. pages_chain get p r' \<and> r = map_sum id ((@) acc) r'"
proof (induction n get p acc arbitrary: r rule: fetch_fuel.induct)
  case (1 get p acc)
  then show ?case by simp
next
  case (2 n get p acc)
  show ?case
  proof (cases "get p")
    case (Inl e)
    with 2 show ?thesis by (auto intro: pages_chain.error)
  next
    case (Inr pg)
    obtain items nxt where pg: "pg = (items, nxt)" by (cases pg)
    show ?thesis
    proof (cases "nxt = 0")
      case True
      with 2 Inr pg show ?thesis by (auto intro: pages_chain.last)
    next
      case False
      with "2.prems" Inr pg have "fetch_fuel n get nxt (acc @ items) = Some r" by simp
      with "2.IH" [OF Inr pg [symmetric] False] obtain r' where
        ch: "pages_chain get nxt r'" and r: "r = map_sum id ((@) (acc @ items)) r'" by blast
      show ?thesis
      proof (cases r')
        case (Inl e)
        with ch r Inr pg False show ?thesis by (auto intro: pages_chain.next_error)
      next
        case (Inr rest)
        with ch have "pages_chain get p (Inr (items @ rest))"
          using \<open>get p = Inr pg\<close> pg False by (auto intro: pages_chain.next_ok)
        with r Inr show ?thesis by force
      qed
    qed
  qed
qed

lemma chain_fetch_fuel:
  "pages_chain get p r \<Longrightarrow> \<exists>n. fetch_fuel n get p acc = Some (map_sum id ((@) acc) r)"
proof (induction arbitrary: acc rule: pages_chain.induct)
  case (error p e)
  then have "fetch_fuel (Suc 0) get p acc = Some (map_sum id ((@) acc) (Inl e))" by simp
  then show ?case by blast
next
  case (last p items)
  then have "fetch_fuel (Suc 0) get p acc = Some (map_sum id ((@) acc) (Inr items))" by simp
  then show ?case by blast
next
  case (next_ok p items n rest)
  obtain m where "fetch_fuel m get n (acc @ items) = Some (Inr (acc @ items @ rest))"
    using next_ok.IH [of "acc @ items"] by auto
  with next_ok.hyps(1,2) have "fetch_fuel (Suc m) get p acc = Some (map_sum id ((@) acc) (Inr (items @ rest)))"
    by simp
  then show ?case by blast
next
  case (next_error p items n e)
  obtain m where "fetch_fuel m get n (acc @ items) = Some (Inl e)"
    using next_error.IH [of "acc @ items"] by auto
  with next_error.hyps(1,2) have "fetch_fuel (Suc m) get p acc = Some (map_sum id ((@) acc) (Inl e))"
    by simp
  then show ?case by blast
qed

lemma commit_details_complete:
  "g \<in> set gs \<Longrightarrow> api_get_commit api owner repo (gc_sha g) = Inr st \<Longrightarrow>
   \<exists>c \<in> set (commit_details api owner repo gs). commit_sha c = gc_sha g"
  by (induction gs) (auto simp: convert_commit_def split: sum.splits)

section \<open>A provider for the scenarios\<close>

text \<open>
  A provider where the organisation listing fails, the user has three repositories on
  two pages (one archived, one whose full name has no owner part), every repository has
  the branches \<open>main\<close> and \<open>develop\<close>, listing \<open>develop\<close> fails, and the details
  of commit \<open>c2\<close> fail. The statistics it reports are inconsistent: the total is not
  the sum of additions and deletions.
\<close>

abbreviation demo_gh_repo :: "string \<Rightarrow> string \<Rightarrow> bool \<Rightarrow> gh_repository" where
  "demo_gh_repo n fn arch \<equiv>
     \<lparr>gr_name = n, gr_full_name = fn, gr_html_url = [], gr_default_branch = ''main'', gr_archived = arch\<rparr>"

abbreviation demo_gh_commit :: "string \<Rightarrow> gh_commit" where
  "demo_gh_commit h \<equiv>
     \<lparr>gc_sha = h, gc_message = [], gc_author_name = ''John Doe'', gc_author_email = ''john@example.com'',
      gc_author_date = 0, gc_login = Some ''johndoe''\<rparr>"

abbreviation demo_api :: github_api where
  "demo_api \<equiv>
     \<lparr>api_list_by_org = (\<lambda>t p. Inl (ApiError ''404 Not Found'')),
      api_list_user = (\<lambda>t p. if p = 0 then Inr ([demo_gh_repo ''repo1'' ''owner/repo1'' False,
                                                   demo_gh_repo ''old'' ''owner/old'' True], 2)
                              else Inr ([demo_gh_repo ''bad'' ''bad'' False], 0)),
      api_list_branches = (\<lambda>ow r p. Inr ([\<lparr>gb_name = ''develop'', gb_sha = ''s2''\<rparr>,
                                           \<lparr>gb_name = ''main'', gb_sha = ''s1''\<rparr>], 0)),
      api_list_commits = (\<lambda>ow r b s u p. if b = ''main'' then Inr ([demo_gh_commit ''c1'', demo_gh_commit ''c2''], 0)
                                         else Inl (ApiError ''502 Bad Gateway'')),
      api_get_commit = (\<lambda>ow r h. if h = ''c2'' then Inl (ApiError ''500'')
                                 else Inr \<lparr>gs_additions = 10, gs_deletions = 5, gs_total = 16\<rparr>)\<rparr>"

section \<open>Properties of the client\<close>

text \<open>
  C9 (termination). The pagination loop of every listing call returns when the
  provider's \<open>NextPage\<close> links increase up to a last page \<open>N\<close>.
\<close>

theorem fetch_pages_returns:
  assumes "pages_bounded get N"
  shows "\<exists>r. fetch_pages get 0 acc = Some r"
  using assms by (rule fetch_pages_terminates)

theorem fetch_pages_returns_witness:
  "\<exists>r. fetch_pages (api_list_user demo_api ''owner'') 0 [] = Some r"
proof -
  have b: "pages_bounded (api_list_user demo_api ''owner'') 2"
    by (simp add: pages_bounded_def)
  show ?thesis using fetch_pages_returns [OF b] .
qed

text \<open>
  C10 (equivalence). The pagination loop returns \<open>r\<close> exactly when \<open>r\<close> is what
  following the \<open>NextPage\<close> links gives by \<open>pages_chain\<close>: the error of the first
  failing page, or the items of every page in order, the last page's included; it does
  not return when the links never reach \<open>NextPage = 0\<close>.
\<close>

theorem fetch_pages_spec: "(fetch_pages get p [] = Some r) = pages_chain get p r"
proof
  assume "fetch_pages get p [] = Some r"
  then obtain n where "fetch_fuel n get p [] = Some r" using fetch_pages_complete by blast
  from fetch_fuel_chain [OF this] obtain r' where "pages_chain get p r'" "r = map_sum id ((@) []) r'"
    by blast
  then show "pages_chain get p r" by (cases r') simp_all
next
  assume "pages_chain get p r"
  from chain_fetch_fuel [OF this, of "[]"] obtain n where "fetch_fuel n get p [] = Some r"
    by (cases r) auto
  then show "fetch_pages get p [] = Some r" by (rule fetch_fuel_sound)
qed

text \<open>
  C11 (error). \<open>ListRepositories\<close> fails only when the organisation listing failed on
  some page and the user listing failed too; the error it returns is the user
  listing's.
\<close>

theorem list_repositories_error:
  assumes "list_repositories api target = Some (Inl err)"
  shows "(\<exists>e. fetch_pages (api_list_by_org api target) 0 [] = Some (Inl e))
         \<and> (\<exists>e. fetch_pages (api_list_user api target) 0 [] = Some (Inl e)
                \<and> err = ListUserReposFailed e)"
proof -
  from assms obtain e where org: "fetch_pages (api_list_by_org api target) 0 [] = Some (Inl e)"
    and user: "list_user_repositories api target = Some (Inl err)"
    by (auto simp: list_repositories_def split: option.splits sum.splits)
  from user have "\<exists>e'. fetch_pages (api_list_user api target) 0 [] = Some (Inl e')
                        \<and> err = ListUserReposFailed e'"
    by (auto simp: list_user_repositories_def)
  with org show ?thesis by blast
qed

theorem list_repositories_error_witness:
  "list_repositories (demo_api\<lparr>api_list_user := (\<lambda>t p. Inl (ApiError ''401 Unauthorized''))\<rparr>) ''octocat''
     = Some (Inl (ListUserReposFailed (ApiError ''401 Unauthorized'')))
   \<and> (\<exists>e. fetch_pages (api_list_by_org (demo_api\<lparr>api_list_user := (\<lambda>t p. Inl (ApiError ''401 Unauthorized''))\<rparr>) ''octocat'') 0 [] = Some (Inl e))
   \<and> (\<exists>e. fetch_pages (api_list_user (demo_api\<lparr>api_list_user := (\<lambda>t p. Inl (ApiError ''401 Unauthorized''))\<rparr>) ''octocat'') 0 [] = Some (Inl e)
          \<and> ListUserReposFailed (ApiError ''401 Unauthorized'') = ListUserReposFailed e)"
proof -
  have h: "list_repositories (demo_api\<lparr>api_list_user := (\<lambda>t p. Inl (ApiError ''401 Unauthorized''))\<rparr>) ''octocat''
           = Some (Inl (ListUserReposFailed (ApiError ''401 Unauthorized'')))"
    by (simp add: list_repositories_def list_user_repositories_def fetch_pages.simps)
  show ?thesis using h list_repositories_error [OF h] by blast
qed

text \<open>
  C12 (safety). The repositories \<open>ListRepositories\<close> returns are exactly the
  conversions of the non-archived repositories of the listing that succeeded: the
  organisation's, or, when any organisation page failed, the user's. No archived
  repository is returned and no listed non-archived one is dropped.
\<close>

theorem list_repositories_excludes_archived:
  assumes "list_repositories api target = Some (Inr rs)"
  shows "\<exists>gs. (fetch_pages (api_list_by_org api target) 0 [] = Some (Inr gs)
               \<or> (\<exists>e. fetch_pages (api_list_by_org api target) 0 [] = Some (Inl e))
                  \<and> fetch_pages (api_list_user api target) 0 [] = Some (Inr gs))
             \<and> set rs = convert_repository ` {g \<in> set gs. \<not> gr_archived g}"
  using assms
  by (auto simp: list_repositories_def list_user_repositories_def convert_repositories_def
           split: option.splits sum.splits)

theorem list_repositories_excludes_archived_witness:
  "list_repositories demo_api ''owner''
     = Some (Inr [convert_repository (demo_gh_repo ''repo1'' ''owner/repo1'' False),
                  convert_repository (demo_gh_repo ''bad'' ''bad'' False)])
   \<and> fetch_pages (api_list_user demo_api ''owner'') 0 []
     = Some (Inr [demo_gh_repo ''repo1'' ''owner/repo1'' False, demo_gh_repo ''old'' ''owner/old'' True,
                  demo_gh_repo ''bad'' ''bad'' False])"
proof -
  have h: "list_repositories demo_api ''owner''
     = Some (Inr [convert_repository (demo_gh_repo ''repo1'' ''owner/repo1'' False),
                  convert_repository (demo_gh_repo ''bad'' ''bad'' False)])"
    by (simp add: list_repositories_def list_user_repositories_def convert_repositories_def
                  fetch_pages.simps)
  have "fetch_pages (api_list_user demo_api ''owner'') 0 []
     = Some (Inr [demo_gh_repo ''repo1'' ''owner/repo1'' False, demo_gh_repo ''old'' ''owner/old'' True,
                  demo_gh_repo ''bad'' ''bad'' False])"
    by (simp add: fetch_pages.simps)
  moreover have "\<exists>gs. (fetch_pages (api_list_by_org demo_api ''owner'') 0 [] = Some (Inr gs)
               \<or> (\<exists>e. fetch_pages (api_list_by_org demo_api ''owner'') 0 [] = Some (Inl e))
                  \<and> fetch_pages (api_list_user demo_api ''owner'') 0 [] = Some (Inr gs))
             \<and> set [convert_repository (demo_gh_repo ''repo1'' ''owner/repo1'' False),
                  convert_repository (demo_gh_repo ''bad'' ''bad'' False)]
                = convert_repository ` {g \<in> set gs. \<not> gr_archived g}"
    using list_repositories_excludes_archived [OF h] .
  ultimately show ?thesis using h by blast
qed

text \<open>
  C13 (functional). Every commit \<open>ListCommits\<close> returns is one the provider listed,
  with the statistics \<open>GetCommit\<close> returns for that commit's SHA, copied field by
  field, the provider's total included (it is not checked against additions plus
  deletions, which the spec requires); and every listed commit whose \<open>GetCommit\<close>
  succeeds is returned.
\<close>

theorem list_commits_stats_from_provider:
  assumes "list_commits api ow r b since until = Some (Inr cs)"
  shows "\<exists>gs. fetch_pages (api_list_commits api ow r b since until) 0 [] = Some (Inr gs)
           \<and> (\<forall>c \<in> set cs. (\<exists>g \<in> set gs. gc_sha g = commit_sha c)
                 \<and> api_get_commit api ow r (commit_sha c)
                    = Inr \<lparr>gs_additions = stat_additions (commit_stats c),
                           gs_deletions = stat_deletions (commit_stats c),
                           gs_total = stat_total (commit_stats c)\<rparr>)
           \<and> (\<forall>g \<in> set gs. (\<exists>st. api_get_commit api ow r (gc_sha g) = Inr st)
                 \<longrightarrow> (\<exists>c \<in> set cs. commit_sha c = gc_sha g))"
proof -
  from assms obtain gs where gs: "fetch_pages (api_list_commits api ow r b since until) 0 [] = Some (Inr gs)"
    and cs: "cs = commit_details api ow r gs"
    by (auto simp: list_commits_def split: sum.splits)
  have "\<forall>c \<in> set cs. (\<exists>g \<in> set gs. gc_sha g = commit_sha c)
                 \<and> api_get_commit api ow r (commit_sha c)
                    = Inr \<lparr>gs_additions = stat_additions (commit_stats c),
                           gs_deletions = stat_deletions (commit_stats c),
                           gs_total = stat_total (commit_stats c)\<rparr>"
    using commit_details_stats [of _ api ow r gs] by (fastforce simp: cs convert_commit_def)
  moreover have "\<forall>g \<in> set gs. (\<exists>st. api_get_commit api ow r (gc_sha g) = Inr st)
                 \<longrightarrow> (\<exists>c \<in> set cs. commit_sha c = gc_sha g)"
    using commit_details_complete [of _ gs api ow r] by (auto simp: cs)
  ultimately show ?thesis using gs by blast
qed

theorem list_commits_stats_from_provider_witness:
  "list_commits demo_api ''owner'' ''repo1'' ''main'' 0 1
     = Some (Inr [convert_commit (demo_gh_commit ''c1'') \<lparr>gs_additions = 10, gs_deletions = 5, gs_total = 16\<rparr>])
   \<and> api_get_commit demo_api ''owner'' ''repo1'' ''c1'' = Inr \<lparr>gs_additions = 10, gs_deletions = 5, gs_total = 16\<rparr>"
proof -
  have h: "list_commits demo_api ''owner'' ''repo1'' ''main'' 0 1
     = Some (Inr [convert_commit (demo_gh_commit ''c1'') \<lparr>gs_additions = 10, gs_deletions = 5, gs_total = 16\<rparr>])"
    by (simp add: list_commits_def fetch_pages.simps)
  from list_commits_stats_from_provider [OF h]
  have "api_get_commit demo_api ''owner'' ''repo1'' ''c1'' = Inr \<lparr>gs_additions = 10, gs_deletions = 5, gs_total = 16\<rparr>"
    by (simp add: convert_commit_def)
  with h show ?thesis by blast
qed

end
