(* ===== verification/RepoProcessor.thy ===== *)
theory RepoProcessor
  imports BranchSelect Client
begin

text \<open>
  The repository processor, \<open>Reporter.processRepository\<close> of the reporter (staged in
  \<^verbatim>\<open>src/internal/models/types.go\<close>, lines 426--460), with Go's \<open>strings.Split\<close> on a
  one-character separator. It splits the full name into owner and name (failing unless
  there are exactly two parts), lists the branches through the client, selects the
  branches to process and lists the commits of each; a branch whose commit listing fails
  is logged and skipped. Calls that may not return make the result an option:
  \<open>None\<close> is a processor that never returns.
\<close>

section \<open>strings.Split\<close>

text \<open>
  \<open>strings.Split(s, "/")\<close> returns the pieces between the separators: one more piece
  than there are separators, so \<open>Split("", "/") = [""]\<close> and
  \<open>Split("a/", "/") = ["a", ""]\<close>.
\<close>

fun split_on :: "char \<Rightarrow> string \<Rightarrow> string list" where
  "split_on c [] = [[]]"
| "split_on c (x # xs) =
     (if x = c then [] # split_on c xs
      else (case split_on c xs of
              w # ws \<Rightarrow> (x # w) # ws
            | [] \<Rightarrow> [[x]]))"

section \<open>processRepository\<close>

text \<open>The loop over the selected branches: failures skipped, results in order.\<close>

fun fetch_branches ::
  "github_api \<Rightarrow> string \<Rightarrow> string \<Rightarrow> time \<Rightarrow> time \<Rightarrow> branch list \<Rightarrow> branch list option" where
  "fetch_branches api owner name since until [] = Some []"
| "fetch_branches api owner name since until (b # bs) =
     (case list_commits api owner name (branch_name b) since until of
        None \<Rightarrow> None
      | Some (Inl _) \<Rightarrow> fetch_branches api owner name since until bs
      | Some (Inr cs) \<Rightarrow>
          map_option (\<lambda>rest. b\<lparr>branch_commits := cs\<rparr> # rest)
            (fetch_branches api owner name since until bs))"

definition process_repository ::
  "github_api \<Rightarrow> time \<Rightarrow> time \<Rightarrow> repository \<Rightarrow> repository result option" where
  "process_repository api since until repo =
     (case split_on (CHR ''/'') (repo_full_name repo) of
        [owner, name] \<Rightarrow>
          (case list_branches api owner name of
             None \<Rightarrow> None
           | Some (Inl e) \<Rightarrow> Some (Inl e)
           | Some (Inr bs) \<Rightarrow>
               map_option (\<lambda>pbs. Inr (repo\<lparr>repo_branches := pbs\<rparr>))
                 (fetch_branches api owner name since until
                    (select_branches_to_process bs (repo_default_branch repo))))
      | _ \<Rightarrow> Some (Inl (InvalidRepoName (repo_full_name repo))))"

lemmas processor_defs [model_defs] = process_repository_def

section \<open>Lemmas on strings.Split\<close>

lemma split_on_nonempty: "split_on c s \<noteq> []"
  by (induction s) (auto split: list.splits)

lemma length_split_on:
  "length (split_on c s) = Suc (length (filter (\<lambda>x. x = c) s))"
  by (induction s) (auto split: list.splits simp: split_on_nonempty)

lemma split_on_sep_free:
  "w \<in> set (split_on c s) \<Longrightarrow> c \<notin> set w"
proof (induction s arbitrary: w)
  case Nil
  then show ?case by simp
next
  case (Cons x xs)
  then show ?case
    by (cases "split_on c xs") (auto split: if_splits)
qed

text \<open>\<open>strings.Join(parts, "/")\<close>, the inverse of the split.\<close>

fun join_with :: "char \<Rightarrow> string list \<Rightarrow> string" where
  "join_with c [] = []"
| "join_with c [w] = w"
| "join_with c (w # ws) = w @ c # join_with c ws"

lemma split_on_join:
  "join_with c (split_on c s) = s"
proof (induction s)
  case Nil
  then show ?case by simp
next
  case (Cons x xs)
  obtain w ws where ww: "split_on c xs = w # ws"
    using split_on_nonempty by (cases "split_on c xs") auto
  show ?case
    using Cons.IH ww by (cases ws) auto
qed

lemma split_on_append_sep_free:
  "c \<notin> set w \<Longrightarrow> split_on c (w @ c # s) = w # split_on c s"
  by (induction w) auto

lemma split_on_sep_free_word:
  "c \<notin> set w \<Longrightarrow> split_on c w = [w]"
  by (induction w) auto

lemma join_split_on:
  "ws \<noteq> [] \<Longrightarrow> (\<forall>w \<in> set ws. c \<notin> set w) \<Longrightarrow> split_on c (join_with c ws) = ws"
proof (induction c ws rule: join_with.induct)
  case (1 c)
  then show ?case by simp
next
  case (2 c w)
  then show ?case by (simp add: split_on_sep_free_word)
next
  case (3 c w v vs)
  then show ?case by (simp add: split_on_append_sep_free)
qed

section \<open>Lemmas on the branch loop\<close>

definition fetched_branches ::
  "github_api \<Rightarrow> string \<Rightarrow> string \<Rightarrow> time \<Rightarrow> time \<Rightarrow> branch list \<Rightarrow> branch list" where
  "fetched_branches api owner name since until bs =
     List.map_filter (\<lambda>b. case list_commits api owner name (branch_name b) since until of
                            Some (Inr cs) \<Rightarrow> Some (b\<lparr>branch_commits := cs\<rparr>)
                          | _ \<Rightarrow> None) bs"

lemma fetch_branches_eq:
  assumes "\<forall>b \<in> set bs. list_commits api owner name (branch_name b) since until \<noteq> None"
  shows "fetch_branches api owner name since until bs = Some (fetched_branches api owner name since until bs)"
  using assms
proof (induction bs)
  case Nil
  then show ?case by (simp add: fetched_branches_def)
next
  case (Cons b bs)
  then obtain r where r: "list_commits api owner name (branch_name b) since until = Some r" by auto
  with Cons show ?case by (cases r) (simp_all add: fetched_branches_def)
qed

lemma split_on_two:
  assumes "length (filter (\<lambda>x. x = c) s) = 1"
  obtains ow nm where "split_on c s = [ow, nm]"
proof -
  from assms have "length (split_on c s) = 2" by (simp add: length_split_on)
  then show ?thesis using that by (auto simp: numeral_2_eq_2 length_Suc_conv)
qed

lemma process_repository_not_two:
  "length (split_on (CHR ''/'') (repo_full_name repo)) \<noteq> 2 \<Longrightarrow>
   process_repository api since until repo = Some (Inl (InvalidRepoName (repo_full_name repo)))"
  by (auto simp: process_repository_def numeral_2_eq_2 split: list.splits)

lemma process_repository_two:
  "split_on (CHR ''/'') (repo_full_name repo) = [ow, nm] \<Longrightarrow>
   process_repository api since until repo =
     (case list_branches api ow nm of
        None \<Rightarrow> None
      | Some (Inl e) \<Rightarrow> Some (Inl e)
      | Some (Inr bs) \<Rightarrow>
          map_option (\<lambda>pbs. Inr (repo\<lparr>repo_branches := pbs\<rparr>))
            (fetch_branches api ow nm since until
               (select_branches_to_process bs (repo_default_branch repo))))"
  by (simp add: process_repository_def)

section \<open>Properties of the repository processor\<close>

text \<open>
  \<open>strings.Split\<close> on \<open>/\<close> loses nothing: joining its pieces with
  \<open>/\<close> gives the input back, no piece contains \<open>/\<close>, and splitting a join of
  separator-free pieces gives the pieces back.
\<close>

lemma split_on_roundtrip:
  "join_with c (split_on c s) = s
   \<and> (\<forall>w \<in> set (split_on c s). c \<notin> set w)
   \<and> (ws \<noteq> [] \<and> (\<forall>w \<in> set ws. c \<notin> set w) \<longrightarrow> split_on c (join_with c ws) = ws)"
  using split_on_join split_on_sep_free join_split_on by blast

text \<open>
  C14 (error). \<open>processRepository\<close> fails with the malformed-name error exactly when
  the full name does not contain exactly one \<open>/\<close>.
\<close>

theorem process_repository_invalid_name:
  "(\<exists>n. process_repository api since until repo = Some (Inl (InvalidRepoName n)))
   = (length (filter (\<lambda>x. x = CHR ''/'') (repo_full_name repo)) \<noteq> 1)"
proof (cases "length (filter (\<lambda>x. x = CHR ''/'') (repo_full_name repo)) = 1")
  case True
  then obtain ow nm where sp: "split_on (CHR ''/'') (repo_full_name repo) = [ow, nm]"
    by (rule split_on_two)
  have "\<not> (\<exists>n. process_repository api since until repo = Some (Inl (InvalidRepoName n)))"
    using list_branches_Inl [of api ow nm]
    by (auto simp: process_repository_two [OF sp] split: option.splits sum.splits)
  with True show ?thesis by simp
next
  case False
  then have "length (split_on (CHR ''/'') (repo_full_name repo)) \<noteq> 2"
    by (simp add: length_split_on)
  then have "process_repository api since until repo = Some (Inl (InvalidRepoName (repo_full_name repo)))"
    by (rule process_repository_not_two)
  with False show ?thesis by blast
qed

text \<open>
  C15 (error). The only errors of \<open>processRepository\<close> are the malformed name and a
  failure to list the branches of \<open>owner/name\<close>, the two halves of the full name:
  commit-listing failures never fail a repository.
\<close>

theorem process_repository_errors:
  assumes "process_repository api since until repo = Some (Inl e)"
  shows "e = InvalidRepoName (repo_full_name repo)
         \<or> (\<exists>ow nm ae. e = ListBranchesFailed ow nm ae \<and> repo_full_name repo = ow @ ''/'' @ nm)"
proof (cases "length (split_on (CHR ''/'') (repo_full_name repo)) = 2")
  case True
  then obtain ow nm where sp: "split_on (CHR ''/'') (repo_full_name repo) = [ow, nm]"
    by (auto simp: numeral_2_eq_2 length_Suc_conv)
  have full: "repo_full_name repo = ow @ ''/'' @ nm"
    using split_on_join [of "CHR ''/''" "repo_full_name repo"] sp by simp
  from assms have "list_branches api ow nm = Some (Inl e)"
    by (auto simp: process_repository_two [OF sp] split: option.splits sum.splits)
  then show ?thesis using full by (auto dest: list_branches_Inl)
next
  case False
  then show ?thesis using assms process_repository_not_two by simp
qed

theorem process_repository_errors_witness:
  "process_repository demo_api 0 1 (convert_repository (demo_gh_repo ''bad'' ''bad'' False)) = Some (Inl (InvalidRepoName ''bad''))
   \<and> (InvalidRepoName ''bad'' = InvalidRepoName (repo_full_name (convert_repository (demo_gh_repo ''bad'' ''bad'' False)))
      \<or> (\<exists>ow nm ae. InvalidRepoName ''bad'' = ListBranchesFailed ow nm ae
                    \<and> repo_full_name (convert_repository (demo_gh_repo ''bad'' ''bad'' False)) = ow @ ''/'' @ nm))"
proof -
  have h: "process_repository demo_api 0 1 (convert_repository (demo_gh_repo ''bad'' ''bad'' False)) = Some (Inl (InvalidRepoName ''bad''))"
    by (simp add: process_repository_def convert_repository_def)
  show ?thesis using h process_repository_errors [OF h] by blast
qed

text \<open>
  C16 (functional). When the name splits into owner and name, the branch listing
  succeeds and every commit listing returns, \<open>processRepository\<close> succeeds with the
  repository whose branches are the selected branches whose commit listing succeeded,
  in selection order, each with its commits: a failing branch is skipped, and a
  repository with no successful branch still succeeds.
\<close>

theorem process_repository_success:
  assumes "split_on (CHR ''/'') (repo_full_name repo) = [ow, nm]"
    and "list_branches api ow nm = Some (Inr bs)"
    and "\<forall>b \<in> set (select_branches_to_process bs (repo_default_branch repo)).
           list_commits api ow nm (branch_name b) since until \<noteq> None"
  shows "process_repository api since until repo
         = Some (Inr (repo\<lparr>repo_branches := fetched_branches api ow nm since until
                                 (select_branches_to_process bs (repo_default_branch repo))\<rparr>))"
  using assms by (simp add: process_repository_two fetch_branches_eq)

theorem process_repository_success_witness:
  "split_on (CHR ''/'') (repo_full_name (convert_repository (demo_gh_repo ''repo1'' ''owner/repo1'' False))) = [''owner'', ''repo1'']
   \<and> list_branches demo_api ''owner'' ''repo1'' = Some (Inr [\<lparr>branch_name = ''develop'', branch_sha = ''s2'', branch_commits = []\<rparr>,
                  \<lparr>branch_name = ''main'', branch_sha = ''s1'', branch_commits = []\<rparr>])
   \<and> process_repository demo_api 0 1 (convert_repository (demo_gh_repo ''repo1'' ''owner/repo1'' False))
       = Some (Inr ((convert_repository (demo_gh_repo ''repo1'' ''owner/repo1'' False))\<lparr>repo_branches := fetched_branches demo_api ''owner'' ''repo1'' 0 1
                      (select_branches_to_process [\<lparr>branch_name = ''develop'', branch_sha = ''s2'', branch_commits = []\<rparr>,
                  \<lparr>branch_name = ''main'', branch_sha = ''s1'', branch_commits = []\<rparr>] (repo_default_branch (convert_repository (demo_gh_repo ''repo1'' ''owner/repo1'' False))))\<rparr>))"
proof -
  have h1: "split_on (CHR ''/'') (repo_full_name (convert_repository (demo_gh_repo ''repo1'' ''owner/repo1'' False))) = [''owner'', ''repo1'']"
    by (simp add: convert_repository_def)
  have h2: "list_branches demo_api ''owner'' ''repo1'' = Some (Inr [\<lparr>branch_name = ''develop'', branch_sha = ''s2'', branch_commits = []\<rparr>,
                  \<lparr>branch_name = ''main'', branch_sha = ''s1'', branch_commits = []\<rparr>])"
    by (simp add: list_branches_def convert_branch_def fetch_pages.simps)
  have sel: "select_branches_to_process [\<lparr>branch_name = ''develop'', branch_sha = ''s2'', branch_commits = []\<rparr>,
                  \<lparr>branch_name = ''main'', branch_sha = ''s1'', branch_commits = []\<rparr>] (repo_default_branch (convert_repository (demo_gh_repo ''repo1'' ''owner/repo1'' False)))
             = [\<lparr>branch_name = ''main'', branch_sha = ''s1'', branch_commits = []\<rparr>,
                \<lparr>branch_name = ''develop'', branch_sha = ''s2'', branch_commits = []\<rparr>]"
    by (simp add: branch_select_defs convert_repository_def)
  have h3: "\<forall>b \<in> set (select_branches_to_process [\<lparr>branch_name = ''develop'', branch_sha = ''s2'', branch_commits = []\<rparr>,
                  \<lparr>branch_name = ''main'', branch_sha = ''s1'', branch_commits = []\<rparr>] (repo_default_branch (convert_repository (demo_gh_repo ''repo1'' ''owner/repo1'' False)))).
              list_commits demo_api ''owner'' ''repo1'' (branch_name b) 0 1 \<noteq> None"
    unfolding sel by (simp add: list_commits_def fetch_pages.simps)
  show ?thesis using h1 h2 process_repository_success [OF h1 h2 h3] by blast
qed

lemma process_repository_terminates:
  assumes "\<forall>ow nm. pages_bounded (api_list_branches api ow nm) N"
    and "\<forall>ow nm b. pages_bounded (api_list_commits api ow nm b since until) N"
  shows "\<exists>res. process_repository api since until repo = Some res"
proof (cases "length (split_on (CHR ''/'') (repo_full_name repo)) = 2")
  case True
  then obtain ow nm where sp: "split_on (CHR ''/'') (repo_full_name repo) = [ow, nm]"
    by (auto simp: numeral_2_eq_2 length_Suc_conv)
  obtain r where r: "list_branches api ow nm = Some r"
    using list_branches_returns assms(1) by blast
  show ?thesis
  proof (cases r)
    case (Inl e)
    with r show ?thesis by (simp add: process_repository_two [OF sp])
  next
    case (Inr bs)
    let ?sel = "select_branches_to_process bs (repo_default_branch repo)"
    have "\<forall>b \<in> set ?sel. list_commits api ow nm (branch_name b) since until \<noteq> None"
      using list_commits_returns assms(2) by blast
    then have "fetch_branches api ow nm since until ?sel = Some (fetched_branches api ow nm since until ?sel)"
      by (rule fetch_branches_eq)
    with r Inr show ?thesis by (simp add: process_repository_two [OF sp])
  qed
next
  case False
  then show ?thesis using process_repository_not_two by blast
qed

text \<open>
  C17 (termination). When the provider's page links for branches and commits increase
  up to a last page, \<open>processRepository\<close> returns.
\<close>

theorem process_repository_returns:
  assumes "\<forall>ow nm. pages_bounded (api_list_branches api ow nm) N"
    and "\<forall>ow nm b. pages_bounded (api_list_commits api ow nm b since until) N"
  shows "\<exists>res. process_repository api since until repo = Some res"
  using assms by (rule process_repository_terminates)

theorem process_repository_returns_witness:
  "(\<exists>res. process_repository demo_api 0 1 (convert_repository (demo_gh_repo ''repo1'' ''owner/repo1'' False)) = Some res)"
proof -
  have h1: "\<forall>ow nm. pages_bounded (api_list_branches demo_api ow nm) 0"
    by (simp add: pages_bounded_def)
  have h2: "\<forall>ow nm b. pages_bounded (api_list_commits demo_api ow nm b 0 1) 0"
    by (simp add: pages_bounded_def)
  show ?thesis using process_repository_returns [OF h1 h2] .
qed

end
