(* ===== verification/Aggregator.thy ===== *)
theory Aggregator
  imports Models
begin

text \<open>
  The aggregator: \<open>Reporter.getAuthorKey\<close> and \<open>Reporter.generateSummary\<close> of
  \<^verbatim>\<open>internal/reporter/reporter.go\<close> (staged in \<^verbatim>\<open>src/internal/models/types.go\<close>,
  lines 492--539). \<open>generateSummary\<close> is three nested \<open>range\<close> loops over
  repositories, branches and commits around one loop body, modelled as three nested
  \<open>fold\<close>s around \<open>add_commit\<close>. Go's \<open>map[string]ContributorStats\<close> is a map
  \<open>summary\<close>; reading a missing key of \<open>stats.Repositories\<close> gives the zero
  \<open>RepositoryStats\<close>, as in Go.

  The abstract specification \<open>summary_spec\<close> computes each contributor's entry
  directly from the list of (repository full name, commit) pairs the loops visit; the
  refinement theorem says the loops compute it. The invariant \<open>summary_ok\<close> is the
  cross-check of the data model: each contributor's totals are the sums of its
  per-repository entries.
\<close>

section \<open>The author identity key\<close>

definition get_author_key :: "author \<Rightarrow> string" where
  "get_author_key a =
     (if author_login a \<noteq> [] then author_login a
      else if author_email a \<noteq> [] then author_email a
      else author_name a)"

section \<open>One iteration of the loop body\<close>

definition new_contributor :: "author \<Rightarrow> contributor_stats" where
  "new_contributor a =
     \<lparr>cs_name = author_name a, cs_email = author_email a, cs_login = author_login a,
      total_commits = 0, total_additions = 0, total_deletions = 0,
      cs_repositories = Map.empty\<rparr>"

definition zero_repository_stats :: repository_stats where
  "zero_repository_stats = \<lparr>rs_commits = 0, rs_additions = 0, rs_deletions = 0\<rparr>"

definition bump_repository_stats :: "commit \<Rightarrow> repository_stats \<Rightarrow> repository_stats" where
  "bump_repository_stats c rs =
     rs\<lparr>rs_commits := rs_commits rs + 1,
        rs_additions := rs_additions rs + stat_additions (commit_stats c),
        rs_deletions := rs_deletions rs + stat_deletions (commit_stats c)\<rparr>"

definition bump_totals :: "commit \<Rightarrow> contributor_stats \<Rightarrow> contributor_stats" where
  "bump_totals c st =
     st\<lparr>total_commits := total_commits st + 1,
        total_additions := total_additions st + stat_additions (commit_stats c),
        total_deletions := total_deletions st + stat_deletions (commit_stats c)\<rparr>"

definition add_commit :: "string \<Rightarrow> summary \<Rightarrow> commit \<Rightarrow> summary" where
  "add_commit full summ c =
     (let k = get_author_key (commit_author c);
          st = (case summ k of Some st \<Rightarrow> st | None \<Rightarrow> new_contributor (commit_author c));
          st = bump_totals c st;
          rs = (case cs_repositories st full of Some rs \<Rightarrow> rs | None \<Rightarrow> zero_repository_stats);
          rs = bump_repository_stats c rs
      in summ(k \<mapsto> st\<lparr>cs_repositories := (cs_repositories st)(full \<mapsto> rs)\<rparr>))"

section \<open>The loops\<close>

definition generate_summary :: "repository list \<Rightarrow> summary" where
  "generate_summary repos =
     fold (\<lambda>repo summ.
             fold (\<lambda>br summ.
                     fold (\<lambda>c summ. add_commit (repo_full_name repo) summ c) (branch_commits br) summ)
                  (repo_branches repo) summ)
          repos Map.empty"

lemmas aggregator_defs [model_defs] =
  get_author_key_def new_contributor_def zero_repository_stats_def bump_repository_stats_def
  bump_totals_def add_commit_def generate_summary_def

section \<open>The abstract specification\<close>

text \<open>
  The commits in the order the loops visit them, each with the full name of its
  repository; and the entry each key and each repository name should have.
\<close>

definition flat_commits :: "repository list \<Rightarrow> (string \<times> commit) list" where
  "flat_commits repos =
     concat (map (\<lambda>r. concat (map (\<lambda>b. map (\<lambda>c. (repo_full_name r, c)) (branch_commits b))
                                  (repo_branches r))) repos)"

abbreviation additions_of :: "string \<times> commit \<Rightarrow> go_int" where
  "additions_of y \<equiv> stat_additions (commit_stats (snd y))"

abbreviation deletions_of :: "string \<times> commit \<Rightarrow> go_int" where
  "deletions_of y \<equiv> stat_deletions (commit_stats (snd y))"

abbreviation key_of :: "string \<times> commit \<Rightarrow> string" where
  "key_of y \<equiv> get_author_key (commit_author (snd y))"

definition repo_rollup :: "(string \<times> commit) list \<Rightarrow> string \<rightharpoonup> repository_stats" where
  "repo_rollup ys f =
     (let zs = filter (\<lambda>y. fst y = f) ys in
      if zs = [] then None
      else Some \<lparr>rs_commits = of_nat (length zs),
                 rs_additions = sum_list (map additions_of zs),
                 rs_deletions = sum_list (map deletions_of zs)\<rparr>)"

definition contributor_of :: "(string \<times> commit) list \<Rightarrow> contributor_stats option" where
  "contributor_of zs =
     (case zs of
        [] \<Rightarrow> None
      | y # _ \<Rightarrow>
          Some \<lparr>cs_name = author_name (commit_author (snd y)),
                cs_email = author_email (commit_author (snd y)),
                cs_login = author_login (commit_author (snd y)),
                total_commits = of_nat (length zs),
                total_additions = sum_list (map additions_of zs),
                total_deletions = sum_list (map deletions_of zs),
                cs_repositories = repo_rollup zs\<rparr>)"

definition summary_spec :: "(string \<times> commit) list \<Rightarrow> summary" where
  "summary_spec xs k = contributor_of (filter (\<lambda>y. key_of y = k) xs)"

section \<open>The invariant of the data model\<close>

text \<open>
  Each contributor's totals equal the sums, over the repositories of its map, of the
  per-repository counters (spec, section 3).
\<close>

definition contributor_ok :: "contributor_stats \<Rightarrow> bool" where
  "contributor_ok st \<longleftrightarrow>
     finite (dom (cs_repositories st)) \<and>
     total_commits st = (\<Sum>f\<in>dom (cs_repositories st). rs_commits (the (cs_repositories st f))) \<and>
     total_additions st = (\<Sum>f\<in>dom (cs_repositories st). rs_additions (the (cs_repositories st f))) \<and>
     total_deletions st = (\<Sum>f\<in>dom (cs_repositories st). rs_deletions (the (cs_repositories st f)))"

definition summary_ok :: "summary \<Rightarrow> bool" where
  "summary_ok summ \<longleftrightarrow> (\<forall>st \<in> ran summ. contributor_ok st)"

section \<open>The loops visit the flattened commit list\<close>

lemma generate_summary_flat:
  "generate_summary repos = fold (\<lambda>y summ. add_commit (fst y) summ (snd y)) (flat_commits repos) Map.empty"
  by (simp add: generate_summary_def flat_commits_def fold_concat_nested fold_map comp_def)

section \<open>Refinement: the loop body implements the specification\<close>

lemma repo_rollup_snoc:
  "repo_rollup (zs @ [(f, c)])
     = (repo_rollup zs)(f \<mapsto> bump_repository_stats c
          (case repo_rollup zs f of Some rs \<Rightarrow> rs | None \<Rightarrow> zero_repository_stats))"
proof
  fix g
  show "repo_rollup (zs @ [(f, c)]) g = ((repo_rollup zs)(f \<mapsto> bump_repository_stats c
          (case repo_rollup zs f of Some rs \<Rightarrow> rs | None \<Rightarrow> zero_repository_stats))) g"
  proof (cases "g = f")
    case True
    then show ?thesis
      by (simp add: repo_rollup_def Let_def bump_repository_stats_def zero_repository_stats_def)
  next
    case False
    then show ?thesis by (simp add: repo_rollup_def)
  qed
qed

lemma repo_rollup_Nil [simp]: "repo_rollup [] = Map.empty"
  by (simp add: repo_rollup_def fun_eq_iff)

lemma contributor_of_snoc:
  assumes "key_of (f, c) = k"
  shows "contributor_of (zs @ [(f, c)])
         = Some (let st = bump_totals c (case contributor_of zs of Some st \<Rightarrow> st
                                           | None \<Rightarrow> new_contributor (commit_author c))
                 in st\<lparr>cs_repositories := (cs_repositories st)(f \<mapsto> bump_repository_stats c
                       (case cs_repositories st f of Some rs \<Rightarrow> rs | None \<Rightarrow> zero_repository_stats))\<rparr>)"
proof (cases zs)
  case Nil
  then show ?thesis
    using repo_rollup_snoc [of "[]" f c]
    by (simp add: contributor_of_def bump_totals_def new_contributor_def)
next
  case (Cons y ys)
  then show ?thesis
    using repo_rollup_snoc [of "y # ys" f c]
    by (simp add: contributor_of_def bump_totals_def)
qed

lemma add_commit_spec:
  "add_commit f (summary_spec xs) c = summary_spec (xs @ [(f, c)])"
proof
  fix k
  show "add_commit f (summary_spec xs) c k = summary_spec (xs @ [(f, c)]) k"
  proof (cases "get_author_key (commit_author c) = k")
    case True
    then show ?thesis
      by (simp add: add_commit_def summary_spec_def contributor_of_snoc Let_def)
  next
    case False
    then show ?thesis by (simp add: add_commit_def summary_spec_def Let_def)
  qed
qed

lemma fold_add_commit_spec:
  "fold (\<lambda>y summ. add_commit (fst y) summ (snd y)) ys (summary_spec xs) = summary_spec (xs @ ys)"
proof (induction ys arbitrary: xs)
  case Nil
  then show ?case by simp
next
  case (Cons y ys)
  have "add_commit (fst y) (summary_spec xs) (snd y) = summary_spec (xs @ [y])"
    using add_commit_spec [of "fst y" xs "snd y"] by simp
  with Cons.IH [of "xs @ [y]"] show ?case by simp
qed

lemma summary_spec_Nil: "summary_spec [] = Map.empty"
  by (simp add: summary_spec_def contributor_of_def fun_eq_iff)

lemma generate_summary_eq_spec:
  "generate_summary repos = summary_spec (flat_commits repos)"
  using fold_add_commit_spec [of "flat_commits repos" "[]"]
  by (simp add: generate_summary_flat summary_spec_Nil)

section \<open>The invariant is kept by every iteration\<close>

lemma contributor_ok_new: "contributor_ok (new_contributor a)"
  by (simp add: contributor_ok_def new_contributor_def)

lemma contributor_ok_bump:
  assumes ok: "contributor_ok st"
  shows "contributor_ok ((bump_totals c st)\<lparr>cs_repositories := (cs_repositories st)(f \<mapsto>
           bump_repository_stats c (case cs_repositories st f of Some rs \<Rightarrow> rs
                                      | None \<Rightarrow> zero_repository_stats))\<rparr>)"
proof -
  let ?m = "cs_repositories st"
  let ?v = "bump_repository_stats c (case ?m f of Some rs \<Rightarrow> rs | None \<Rightarrow> zero_repository_stats)"
  from ok have fin: "finite (dom ?m)" by (simp add: contributor_ok_def)
  have "rs_commits ?v = (case ?m f of None \<Rightarrow> 0 | Some u \<Rightarrow> rs_commits u) + 1"
    by (cases "?m f") (simp_all add: bump_repository_stats_def zero_repository_stats_def)
  from sum_dom_upd_bump [OF fin this] have c:
    "(\<Sum>k\<in>dom (?m(f \<mapsto> ?v)). rs_commits (the ((?m(f \<mapsto> ?v)) k)))
     = (\<Sum>k\<in>dom ?m. rs_commits (the (?m k))) + 1" .
  have "rs_additions ?v = (case ?m f of None \<Rightarrow> 0 | Some u \<Rightarrow> rs_additions u) + stat_additions (commit_stats c)"
    by (cases "?m f") (simp_all add: bump_repository_stats_def zero_repository_stats_def)
  from sum_dom_upd_bump [OF fin this] have a:
    "(\<Sum>k\<in>dom (?m(f \<mapsto> ?v)). rs_additions (the ((?m(f \<mapsto> ?v)) k)))
     = (\<Sum>k\<in>dom ?m. rs_additions (the (?m k))) + stat_additions (commit_stats c)" .
  have "rs_deletions ?v = (case ?m f of None \<Rightarrow> 0 | Some u \<Rightarrow> rs_deletions u) + stat_deletions (commit_stats c)"
    by (cases "?m f") (simp_all add: bump_repository_stats_def zero_repository_stats_def)
  from sum_dom_upd_bump [OF fin this] have d:
    "(\<Sum>k\<in>dom (?m(f \<mapsto> ?v)). rs_deletions (the ((?m(f \<mapsto> ?v)) k)))
     = (\<Sum>k\<in>dom ?m. rs_deletions (the (?m k))) + stat_deletions (commit_stats c)" .
  from fin have "finite (dom (?m(f \<mapsto> ?v)))" by simp
  with ok c a d show ?thesis
    by (simp add: contributor_ok_def bump_totals_def del: dom_fun_upd fun_upd_apply)
qed

lemma add_commit_ok:
  assumes "summary_ok summ"
  shows "summary_ok (add_commit full summ c)"
proof -
  let ?k = "get_author_key (commit_author c)"
  let ?st = "case summ ?k of Some st \<Rightarrow> st | None \<Rightarrow> new_contributor (commit_author c)"
  have "contributor_ok ?st"
    using assms by (auto simp: summary_ok_def contributor_ok_new ranI split: option.splits)
  then have "contributor_ok ((bump_totals c ?st)\<lparr>cs_repositories := (cs_repositories ?st)(full \<mapsto>
           bump_repository_stats c (case cs_repositories ?st full of Some rs \<Rightarrow> rs
                                      | None \<Rightarrow> zero_repository_stats))\<rparr>)"
    by (rule contributor_ok_bump)
  moreover have "ran (summ(?k \<mapsto> v)) \<subseteq> insert v (ran summ)" for v
    by (auto simp: ran_def)
  ultimately show ?thesis
    using assms by (auto simp: summary_ok_def add_commit_def Let_def bump_totals_def)
qed

lemma fold_add_commit_ok:
  "summary_ok summ \<Longrightarrow> summary_ok (fold (\<lambda>y summ. add_commit (fst y) summ (snd y)) ys summ)"
  by (induction ys arbitrary: summ) (simp_all add: add_commit_ok)

lemma summary_ok_empty: "summary_ok Map.empty"
  by (simp add: summary_ok_def)

section \<open>Order of the repositories\<close>

text \<open>
  The counters of a contributor, without the identity fields that the first commit seen
  seeds.
\<close>

definition contribution_counts ::
  "contributor_stats \<Rightarrow> go_int \<times> go_int \<times> go_int \<times> (string \<rightharpoonup> repository_stats)" where
  "contribution_counts st = (total_commits st, total_additions st, total_deletions st, cs_repositories st)"

lemma mset_flat_commits:
  assumes "mset rs1 = mset rs2"
  shows "mset (flat_commits rs1) = mset (flat_commits rs2)"
  unfolding flat_commits_def mset_concat map_map
  using assms by (rule sum_list_map_mset_eq)

lemma filter_mset_facts:
  fixes g :: "'a \<Rightarrow> 'c::comm_monoid_add"
  assumes "mset zs = mset zs'"
  shows "length zs = length zs'" and "(zs = []) = (zs' = [])"
    and "sum_list (map g zs) = sum_list (map g zs')"
proof -
  show "length zs = length zs'" using assms by (metis size_mset)
  show "(zs = []) = (zs' = [])" using assms by (metis mset_zero_iff)
  show "sum_list (map g zs) = sum_list (map g zs')" using assms by (rule sum_list_map_mset_eq)
qed

lemma repo_rollup_mset:
  assumes "mset zs = mset zs'"
  shows "repo_rollup zs = repo_rollup zs'"
proof
  fix f
  have "mset (filter (\<lambda>y. fst y = f) zs) = mset (filter (\<lambda>y. fst y = f) zs')"
    using assms by simp
  note m = filter_mset_facts [OF this]
  show "repo_rollup zs f = repo_rollup zs' f"
    by (simp add: repo_rollup_def Let_def m(1,2) m(3) [of additions_of] m(3) [of deletions_of])
qed

lemma summary_spec_counts_mset:
  assumes "mset xs = mset ys"
  shows "map_option contribution_counts (summary_spec xs k) = map_option contribution_counts (summary_spec ys k)"
proof -
  let ?zs = "filter (\<lambda>y. key_of y = k) xs" and ?zs' = "filter (\<lambda>y. key_of y = k) ys"
  have m: "mset ?zs = mset ?zs'" using assms by simp
  note facts = filter_mset_facts [OF m]
  have r: "repo_rollup ?zs = repo_rollup ?zs'" using m by (rule repo_rollup_mset)
  show ?thesis
  proof (cases ?zs)
    case Nil
    with facts(2) show ?thesis by (simp add: summary_spec_def contributor_of_def)
  next
    case (Cons z zs)
    with facts(2) obtain z' zs2 where "?zs' = z' # zs2" by (cases ?zs') auto
    with Cons facts(1) r facts(3) [of additions_of] facts(3) [of deletions_of] show ?thesis
      by (simp add: summary_spec_def contributor_of_def contribution_counts_def)
  qed
qed

section \<open>Properties of the aggregator\<close>

text \<open>
  C1 (refinement). \<open>generateSummary\<close> computes its specification: the entry of each
  author key is built from exactly the commits with that key, in the order the loops
  visit them: identity fields of the first such commit, their number, the sums of their
  additions and deletions, and per repository full name the same three counters.
\<close>

theorem generate_summary_refines:
  "generate_summary repos = summary_spec (flat_commits repos)"
  by (rule generate_summary_eq_spec)

text \<open>
  C2 (invariant). In every summary \<open>generateSummary\<close> returns, each contributor's
  total commits, additions and deletions are the sums of its per-repository counters
  over a finite set of repositories.
\<close>

theorem generate_summary_cross_check:
  "summary_ok (generate_summary repos)"
  using fold_add_commit_ok [OF summary_ok_empty] by (simp add: generate_summary_flat)

theorem generate_summary_cross_check_witness:
  "summary_ok (generate_summary [mk_repo ''owner/repo1'' [mk_branch ''main'' [mk_commit ''abc123'' (mk_author ''John Doe'' ''john@example.com'' ''johndoe'') 10 5, mk_commit ''def456'' (mk_author ''John Doe'' ''john@example.com'' ''johndoe'') 20 3]]])
   \<and> generate_summary [mk_repo ''owner/repo1'' [mk_branch ''main'' [mk_commit ''abc123'' (mk_author ''John Doe'' ''john@example.com'' ''johndoe'') 10 5, mk_commit ''def456'' (mk_author ''John Doe'' ''john@example.com'' ''johndoe'') 20 3]]] ''johndoe'' \<noteq> None"
  using generate_summary_cross_check [of "[mk_repo ''owner/repo1'' [mk_branch ''main'' [mk_commit ''abc123'' (mk_author ''John Doe'' ''john@example.com'' ''johndoe'') 10 5, mk_commit ''def456'' (mk_author ''John Doe'' ''john@example.com'' ''johndoe'') 20 3]]]"]
  by (simp add: aggregator_defs Let_def)

text \<open>
  C3 (equivalence). The counters of the summary do not depend on the order of the
  repositories, which the worker pool returns in completion order: two repository lists
  that are permutations of each other give every author key the same totals and the
  same per-repository counters.
\<close>

theorem generate_summary_counts_order_independent:
  assumes "mset rs1 = mset rs2"
  shows "map_option contribution_counts \<circ> generate_summary rs1
         = map_option contribution_counts \<circ> generate_summary rs2"
proof
  fix k
  have "mset (flat_commits rs1) = mset (flat_commits rs2)"
    using assms by (rule mset_flat_commits)
  then have "map_option contribution_counts (summary_spec (flat_commits rs1) k)
             = map_option contribution_counts (summary_spec (flat_commits rs2) k)"
    by (rule summary_spec_counts_mset)
  then show "(map_option contribution_counts \<circ> generate_summary rs1) k
             = (map_option contribution_counts \<circ> generate_summary rs2) k"
    by (simp only: comp_apply generate_summary_eq_spec)
qed

theorem generate_summary_counts_order_independent_witness:
  "mset [mk_repo ''o/a'' [mk_branch ''main'' [mk_commit ''c1'' (mk_author ''Ann'' ''ann@a.org'' ''ann'') 1 0]], mk_repo ''o/b'' [mk_branch ''main'' [mk_commit ''c2'' (mk_author ''Ann B'' ''ann@b.org'' ''ann'') 2 0]]] = mset [mk_repo ''o/b'' [mk_branch ''main'' [mk_commit ''c2'' (mk_author ''Ann B'' ''ann@b.org'' ''ann'') 2 0]], mk_repo ''o/a'' [mk_branch ''main'' [mk_commit ''c1'' (mk_author ''Ann'' ''ann@a.org'' ''ann'') 1 0]]]
   \<and> map_option contribution_counts \<circ> generate_summary [mk_repo ''o/a'' [mk_branch ''main'' [mk_commit ''c1'' (mk_author ''Ann'' ''ann@a.org'' ''ann'') 1 0]], mk_repo ''o/b'' [mk_branch ''main'' [mk_commit ''c2'' (mk_author ''Ann B'' ''ann@b.org'' ''ann'') 2 0]]]
     = map_option contribution_counts \<circ> generate_summary [mk_repo ''o/b'' [mk_branch ''main'' [mk_commit ''c2'' (mk_author ''Ann B'' ''ann@b.org'' ''ann'') 2 0]], mk_repo ''o/a'' [mk_branch ''main'' [mk_commit ''c1'' (mk_author ''Ann'' ''ann@a.org'' ''ann'') 1 0]]]"
proof -
  have m: "mset [mk_repo ''o/a'' [mk_branch ''main'' [mk_commit ''c1'' (mk_author ''Ann'' ''ann@a.org'' ''ann'') 1 0]], mk_repo ''o/b'' [mk_branch ''main'' [mk_commit ''c2'' (mk_author ''Ann B'' ''ann@b.org'' ''ann'') 2 0]]] = mset [mk_repo ''o/b'' [mk_branch ''main'' [mk_commit ''c2'' (mk_author ''Ann B'' ''ann@b.org'' ''ann'') 2 0]], mk_repo ''o/a'' [mk_branch ''main'' [mk_commit ''c1'' (mk_author ''Ann'' ''ann@a.org'' ''ann'') 1 0]]]" by (simp add: add_mset_commute)
  show ?thesis using m generate_summary_counts_order_independent [OF m] by (rule conjI)
qed

text \<open>
  The identity fields are not order independent: the name and email
  stored for a contributor are those of the first commit the loops see. Two repositories
  with commits by the same login under different names give a summary whose name
  depends on which repository comes first, so the report's contributor names depend on
  the completion order of the workers.
\<close>

lemma summary_identity_depends_on_order:
  "mset [mk_repo ''o/a'' [mk_branch ''main'' [mk_commit ''c1'' (mk_author ''Ann'' ''ann@a.org'' ''ann'') 1 0]], mk_repo ''o/b'' [mk_branch ''main'' [mk_commit ''c2'' (mk_author ''Ann B'' ''ann@b.org'' ''ann'') 2 0]]] = mset [mk_repo ''o/b'' [mk_branch ''main'' [mk_commit ''c2'' (mk_author ''Ann B'' ''ann@b.org'' ''ann'') 2 0]], mk_repo ''o/a'' [mk_branch ''main'' [mk_commit ''c1'' (mk_author ''Ann'' ''ann@a.org'' ''ann'') 1 0]]]
   \<and> map_option cs_name (generate_summary [mk_repo ''o/a'' [mk_branch ''main'' [mk_commit ''c1'' (mk_author ''Ann'' ''ann@a.org'' ''ann'') 1 0]], mk_repo ''o/b'' [mk_branch ''main'' [mk_commit ''c2'' (mk_author ''Ann B'' ''ann@b.org'' ''ann'') 2 0]]] ''ann'') = Some ''Ann''
   \<and> map_option cs_name (generate_summary [mk_repo ''o/b'' [mk_branch ''main'' [mk_commit ''c2'' (mk_author ''Ann B'' ''ann@b.org'' ''ann'') 2 0]], mk_repo ''o/a'' [mk_branch ''main'' [mk_commit ''c1'' (mk_author ''Ann'' ''ann@a.org'' ''ann'') 1 0]]] ''ann'') = Some ''Ann B''"
  by (simp add: aggregator_defs Let_def)

text \<open>
  The scenario of the tests and of the spec: a repository with two
  commits by \<open>johndoe\<close> (+10/-5 and +20/-3) and a repository with no fetched branch
  give exactly one contributor, \<open>johndoe\<close>, with 2 commits, 30 additions and 8
  deletions, 2 of them in \<open>owner/repo1\<close>.
\<close>

theorem generate_summary_scenario:
  "dom (generate_summary [mk_repo ''owner/repo1'' [mk_branch ''main'' [mk_commit ''abc123'' (mk_author ''John Doe'' ''john@example.com'' ''johndoe'') 10 5, mk_commit ''def456'' (mk_author ''John Doe'' ''john@example.com'' ''johndoe'') 20 3]], mk_repo ''owner/repo2'' []]) = {''johndoe''}
   \<and> map_option contribution_counts (generate_summary [mk_repo ''owner/repo1'' [mk_branch ''main'' [mk_commit ''abc123'' (mk_author ''John Doe'' ''john@example.com'' ''johndoe'') 10 5, mk_commit ''def456'' (mk_author ''John Doe'' ''john@example.com'' ''johndoe'') 20 3]], mk_repo ''owner/repo2'' []] ''johndoe'')
     = Some (2, 30, 8, [''owner/repo1'' \<mapsto> \<lparr>rs_commits = 2, rs_additions = 30, rs_deletions = 8\<rparr>])"
  by (simp add: aggregator_defs contribution_counts_def Let_def)

end
