(* ===== verification/Coordinator.thy ===== *)
theory Coordinator
  imports RepoProcessor Aggregator
begin

text \<open>
  The fetch coordinator: the worker pool of \<open>Reporter.GenerateReport\<close> and
  \<open>Reporter.processRepositoryWorker\<close> (staged in \<^verbatim>\<open>src/internal/models/types.go\<close>,
  lines 332--424). One sender goroutine writes every repository into the buffered
  channel \<open>reposChan\<close> and closes it; \<open>min(maxWorkers, len(repos))\<close> workers take
  repositories from it, run \<open>processRepository\<close> and send the result to
  \<open>resultsChan\<close> or the wrapped error to \<open>errorsChan\<close>, and exit when
  \<open>reposChan\<close> is closed and drained; a closer goroutine waits for all workers
  (\<open>wg.Wait()\<close>) and closes both result channels; the collector \<open>select\<close>s on the
  two channels, appending what it receives and setting a channel to \<open>nil\<close> when it
  finds it closed, until both are \<open>nil\<close>. All three channels are buffered with capacity
  \<open>len(repos)\<close>.

  The pool is a state record with one field per channel buffer, flag and collected
  list, and the goroutines' moves are the rules of the step relation \<open>pool_step\<close>;
  which goroutine moves next is not determined. A send is enabled only when its buffer
  has room, so the model blocks where Go blocks; a worker whose call to
  \<open>processRepository\<close> never returns (\<open>proc r = None\<close>) stays busy forever. The
  processing function is a parameter \<open>proc\<close>: the pool's lemmas hold for any
  processor, and \<open>generate_report\<close> instantiates it with \<open>process_repository\<close>.
\<close>

section \<open>State and steps\<close>

datatype worker = Idle | Busy repository | Exited

record pool =
  feed :: "repository list"
  jobs :: "repository list"
  jobs_closed :: bool
  workers :: "worker list"
  results :: "repository list"
  errs :: "error list"
  outs_closed :: bool
  res_open :: bool
  err_open :: bool
  processed :: "repository list"
  failures :: "error list"
  capacity :: nat

definition max_workers :: nat where
  "max_workers = 10"

definition pool_init :: "repository list \<Rightarrow> pool" where
  "pool_init repos =
     \<lparr>feed = repos, jobs = [], jobs_closed = False,
      workers = replicate (min max_workers (length repos)) Idle,
      results = [], errs = [], outs_closed = False, res_open = True, err_open = True,
      processed = [], failures = [], capacity = length repos\<rparr>"

text \<open>
  One rule per move: the sender sends or closes; a worker takes a job, exits, or
  delivers the outcome of its job; the closer closes the result channels once every
  worker has exited; the collector receives from an open channel or finds it closed.
\<close>

inductive pool_step ::
  "(repository \<Rightarrow> repository result option) \<Rightarrow> pool \<Rightarrow> pool \<Rightarrow> bool" for proc where
  send: "feed s = r # rs \<Longrightarrow> length (jobs s) < capacity s \<Longrightarrow>
         pool_step proc s (s\<lparr>feed := rs, jobs := jobs s @ [r]\<rparr>)"
| close_jobs: "feed s = [] \<Longrightarrow> \<not> jobs_closed s \<Longrightarrow>
         pool_step proc s (s\<lparr>jobs_closed := True\<rparr>)"
| take: "i < length (workers s) \<Longrightarrow> workers s ! i = Idle \<Longrightarrow> jobs s = r # rs \<Longrightarrow>
         pool_step proc s (s\<lparr>jobs := rs, workers := (workers s)[i := Busy r]\<rparr>)"
| quit: "i < length (workers s) \<Longrightarrow> workers s ! i = Idle \<Longrightarrow> jobs s = [] \<Longrightarrow> jobs_closed s \<Longrightarrow>
         pool_step proc s (s\<lparr>workers := (workers s)[i := Exited]\<rparr>)"
| done_ok: "i < length (workers s) \<Longrightarrow> workers s ! i = Busy r \<Longrightarrow> proc r = Some (Inr r') \<Longrightarrow>
         length (results s) < capacity s \<Longrightarrow>
         pool_step proc s (s\<lparr>results := results s @ [r'], workers := (workers s)[i := Idle]\<rparr>)"
| done_err: "i < length (workers s) \<Longrightarrow> workers s ! i = Busy r \<Longrightarrow> proc r = Some (Inl e) \<Longrightarrow>
         length (errs s) < capacity s \<Longrightarrow>
         pool_step proc s (s\<lparr>errs := errs s @ [RepositoryFailed (repo_full_name r) e],
                              workers := (workers s)[i := Idle]\<rparr>)"
| close_outs: "\<forall>w \<in> set (workers s). w = Exited \<Longrightarrow> \<not> outs_closed s \<Longrightarrow>
         pool_step proc s (s\<lparr>outs_closed := True\<rparr>)"
| recv_result: "res_open s \<Longrightarrow> results s = r # rs \<Longrightarrow>
         pool_step proc s (s\<lparr>results := rs, processed := processed s @ [r]\<rparr>)"
| nil_results: "res_open s \<Longrightarrow> results s = [] \<Longrightarrow> outs_closed s \<Longrightarrow>
         pool_step proc s (s\<lparr>res_open := False\<rparr>)"
| recv_err: "err_open s \<Longrightarrow> errs s = e # es \<Longrightarrow>
         pool_step proc s (s\<lparr>errs := es, failures := failures s @ [e]\<rparr>)"
| nil_errs: "err_open s \<Longrightarrow> errs s = [] \<Longrightarrow> outs_closed s \<Longrightarrow>
         pool_step proc s (s\<lparr>err_open := False\<rparr>)"

inductive pool_reach ::
  "(repository \<Rightarrow> repository result option) \<Rightarrow> repository list \<Rightarrow> pool \<Rightarrow> bool"
  for proc repos where
  init: "pool_reach proc repos (pool_init repos)"
| step: "pool_reach proc repos s \<Longrightarrow> pool_step proc s t \<Longrightarrow> pool_reach proc repos t"

text \<open>The collector's loop ends when both channels are \<open>nil\<close>.\<close>

definition pool_done :: "pool \<Rightarrow> bool" where
  "pool_done s \<longleftrightarrow> \<not> res_open s \<and> \<not> err_open s"

section \<open>What the pool should compute\<close>

text \<open>
  The repositories still to be processed (not yet sent, queued, or in a worker), and
  the successes and wrapped failures that a list of repositories yields.
\<close>

definition busy_repos :: "worker list \<Rightarrow> repository list" where
  "busy_repos ws = List.map_filter (\<lambda>w. case w of Busy r \<Rightarrow> Some r | _ \<Rightarrow> None) ws"

definition pending :: "pool \<Rightarrow> repository list" where
  "pending s = feed s @ jobs s @ busy_repos (workers s)"

definition oks :: "(repository \<Rightarrow> repository result option) \<Rightarrow> repository list \<Rightarrow> repository list" where
  "oks proc rs = List.map_filter (\<lambda>r. case proc r of Some (Inr r') \<Rightarrow> Some r' | _ \<Rightarrow> None) rs"

definition fails :: "(repository \<Rightarrow> repository result option) \<Rightarrow> repository list \<Rightarrow> error list" where
  "fails proc rs =
     List.map_filter (\<lambda>r. case proc r of Some (Inl e) \<Rightarrow> Some (RepositoryFailed (repo_full_name r) e)
                                       | _ \<Rightarrow> None) rs"

section \<open>The invariant\<close>

text \<open>
  Three parts: the shape fixed at start (channel capacity, number of workers); the
  flags, which say how the closing of the channels follows the workers' progress; and
  the flow, which says that no repository is lost or duplicated between the input,
  the channels, the workers and the collected lists.
\<close>

definition inv_shape :: "repository list \<Rightarrow> pool \<Rightarrow> bool" where
  "inv_shape repos s \<longleftrightarrow>
     capacity s = length repos \<and> length (workers s) = min max_workers (length repos)"

definition inv_flags :: "pool \<Rightarrow> bool" where
  "inv_flags s \<longleftrightarrow>
     (jobs_closed s \<longrightarrow> feed s = []) \<and>
     (Exited \<in> set (workers s) \<longrightarrow> jobs_closed s \<and> jobs s = []) \<and>
     (outs_closed s \<longrightarrow> (\<forall>w \<in> set (workers s). w = Exited)) \<and>
     (\<not> res_open s \<longrightarrow> outs_closed s \<and> results s = []) \<and>
     (\<not> err_open s \<longrightarrow> outs_closed s \<and> errs s = [])"

definition inv_flow ::
  "(repository \<Rightarrow> repository result option) \<Rightarrow> repository list \<Rightarrow> pool \<Rightarrow> bool" where
  "inv_flow proc repos s \<longleftrightarrow>
     mset (pending s) \<subseteq># mset repos \<and>
     mset (processed s @ results s) + mset (oks proc (pending s)) = mset (oks proc repos) \<and>
     mset (failures s @ errs s) + mset (fails proc (pending s)) = mset (fails proc repos) \<and>
     length (processed s @ results s) + length (failures s @ errs s) + length (pending s)
       = length repos"

definition pool_inv ::
  "(repository \<Rightarrow> repository result option) \<Rightarrow> repository list \<Rightarrow> pool \<Rightarrow> bool" where
  "pool_inv proc repos s \<longleftrightarrow> inv_shape repos s \<and> inv_flags s \<and> inv_flow proc repos s"

section \<open>Lemmas on the pending repositories\<close>

lemma busy_repos_append [simp]:
  "busy_repos (xs @ ys) = busy_repos xs @ busy_repos ys"
  by (simp add: busy_repos_def)

lemma busy_repos_single [simp]:
  "busy_repos [Busy r] = [r]" "busy_repos [Idle] = []" "busy_repos [Exited] = []"
  by (simp_all add: busy_repos_def)

lemma oks_append [simp]: "oks proc (xs @ ys) = oks proc xs @ oks proc ys"
  by (simp add: oks_def)

lemma fails_append [simp]: "fails proc (xs @ ys) = fails proc xs @ fails proc ys"
  by (simp add: fails_def)

lemma oks_single [simp]:
  "proc r = Some (Inr r') \<Longrightarrow> oks proc [r] = [r']"
  "proc r = Some (Inl e) \<Longrightarrow> oks proc [r] = []"
  by (simp_all add: oks_def)

lemma fails_single [simp]:
  "proc r = Some (Inr r') \<Longrightarrow> fails proc [r] = []"
  "proc r = Some (Inl e) \<Longrightarrow> fails proc [r] = [RepositoryFailed (repo_full_name r) e]"
  by (simp_all add: fails_def)

lemma oks_Cons: "oks proc (r # rs) = oks proc [r] @ oks proc rs"
  using oks_append [of proc "[r]" rs] by simp

lemma fails_Cons: "fails proc (r # rs) = fails proc [r] @ fails proc rs"
  using fails_append [of proc "[r]" rs] by simp

text \<open>Updating one worker changes the busy repositories at one place.\<close>

lemma busy_repos_update:
  assumes "i < length ws"
  obtains A B where "busy_repos ws = A @ busy_repos [ws ! i] @ B"
    and "busy_repos (ws[i := w]) = A @ busy_repos [w] @ B"
proof -
  have "ws = take i ws @ [ws ! i] @ drop (Suc i) ws"
    using assms by (simp add: id_take_nth_drop)
  moreover have "ws[i := w] = take i ws @ [w] @ drop (Suc i) ws"
    using assms by (simp add: upd_conv_take_nth_drop)
  ultimately show ?thesis
    using that [of "busy_repos (take i ws)" "busy_repos (drop (Suc i) ws)"]
    by (metis busy_repos_append)
qed

lemma Exited_upd:
  "Exited \<in> set (ws[i := w]) \<Longrightarrow> w \<noteq> Exited \<Longrightarrow> Exited \<in> set ws"
  by (metis in_set_conv_nth length_list_update nth_list_update_eq nth_list_update_neq)

lemma all_Exited_nth:
  "\<forall>w \<in> set ws. w = Exited \<Longrightarrow> i < length ws \<Longrightarrow> ws ! i = Exited"
  by simp

section \<open>Each step keeps the invariant\<close>

lemma pool_step_shape:
  "pool_step proc s t \<Longrightarrow> inv_shape repos s \<Longrightarrow> inv_shape repos t"
  by (induction rule: pool_step.induct) (simp_all add: inv_shape_def)

lemma pool_step_flags:
  "pool_step proc s t \<Longrightarrow> inv_flags s \<Longrightarrow> inv_flags t"
proof (induction rule: pool_step.induct)
  case (send s r rs)
  then show ?case by (auto simp: inv_flags_def)
next
  case (close_jobs s)
  then show ?case by (auto simp: inv_flags_def)
next
  case (take i s r rs)
  then show ?case using nth_mem [OF take.hyps(1)] by (auto simp: inv_flags_def dest: Exited_upd)
next
  case (quit i s)
  then show ?case using nth_mem [OF quit.hyps(1)]
    by (auto simp: inv_flags_def set_update_subset_insert [THEN subsetD])
next
  case (done_ok i s r r')
  then show ?case using nth_mem [OF done_ok.hyps(1)] by (fastforce simp: inv_flags_def dest: Exited_upd)
next
  case (done_err i s r e)
  then show ?case using nth_mem [OF done_err.hyps(1)] by (fastforce simp: inv_flags_def dest: Exited_upd)
next
  case (close_outs s)
  then show ?case by (auto simp: inv_flags_def)
next
  case (recv_result s r rs)
  then show ?case by (auto simp: inv_flags_def)
next
  case (nil_results s)
  then show ?case by (auto simp: inv_flags_def)
next
  case (recv_err s e es)
  then show ?case by (auto simp: inv_flags_def)
next
  case (nil_errs s)
  then show ?case by (auto simp: inv_flags_def)
qed

lemma oks_mset: "mset xs = mset ys \<Longrightarrow> mset (oks proc xs) = mset (oks proc ys)"
  unfolding oks_def by (rule mset_map_filter_mset)

lemma fails_mset: "mset xs = mset ys \<Longrightarrow> mset (fails proc xs) = mset (fails proc ys)"
  unfolding fails_def by (rule mset_map_filter_mset)

text \<open>
  A move that only shifts repositories between the pending places (sending, taking,
  exiting) or from a channel to the collected list keeps the flow.
\<close>

lemma inv_flow_shift:
  assumes "inv_flow proc repos s"
    and "mset (pending t) = mset (pending s)"
    and "processed t @ results t = processed s @ results s"
    and "failures t @ errs t = failures s @ errs s"
  shows "inv_flow proc repos t"
proof -
  have "length (pending t) = length (pending s)" using assms(2) by (metis size_mset)
  then show ?thesis
    using assms oks_mset [OF assms(2), of proc] fails_mset [OF assms(2), of proc]
    by (simp add: inv_flow_def)
qed

text \<open>A worker that delivers the outcome of \<open>r\<close> moves it out of the pending places.\<close>

lemma inv_flow_deliver:
  assumes inv: "inv_flow proc repos s"
    and ps: "pending s = P @ [r] @ Q" and pt: "pending t = P @ Q"
    and pr: "processed t = processed s" and fl: "failures t = failures s"
    and rs: "mset (results t) = mset (results s) + mset (oks proc [r])"
    and es: "mset (errs t) = mset (errs s) + mset (fails proc [r])"
    and one: "length (oks proc [r]) + length (fails proc [r]) = 1"
  shows "inv_flow proc repos t"
proof -
  from inv have i1: "mset (pending s) \<subseteq># mset repos"
    and i2: "mset (processed s @ results s) + mset (oks proc (pending s)) = mset (oks proc repos)"
    and i3: "mset (failures s @ errs s) + mset (fails proc (pending s)) = mset (fails proc repos)"
    and i4: "length (processed s @ results s) + length (failures s @ errs s) + length (pending s)
             = length repos"
    by (simp_all add: inv_flow_def)
  have po: "mset (oks proc (pending s)) = mset (oks proc (pending t)) + mset (oks proc [r])"
    by (simp only: ps pt oks_append mset_append ac_simps)
  have pf: "mset (fails proc (pending s)) = mset (fails proc (pending t)) + mset (fails proc [r])"
    by (simp only: ps pt fails_append mset_append ac_simps)
  have pl: "length (pending s) = Suc (length (pending t))" by (simp add: ps pt)
  have sub: "mset (pending t) \<subseteq># mset (pending s)" by (simp add: ps pt)
  have "size (mset (results t)) = size (mset (results s)) + size (mset (oks proc [r]))"
    by (simp only: rs size_union)
  moreover have "size (mset (errs t)) = size (mset (errs s)) + size (mset (fails proc [r]))"
    by (simp only: es size_union)
  ultimately have lr: "length (results t) + length (errs t) = length (results s) + length (errs s) + 1"
    using one by (simp only: size_mset)
  show ?thesis
    unfolding inv_flow_def
  proof (intro conjI)
    show "mset (pending t) \<subseteq># mset repos" using sub i1 by (rule subset_mset.order_trans)
    show "mset (processed t @ results t) + mset (oks proc (pending t)) = mset (oks proc repos)"
      using i2 po pr rs by (simp add: ac_simps)
    show "mset (failures t @ errs t) + mset (fails proc (pending t)) = mset (fails proc repos)"
      using i3 pf fl es by (simp add: ac_simps)
    show "length (processed t @ results t) + length (failures t @ errs t) + length (pending t)
          = length repos"
      using i4 pl pr fl lr by simp
  qed
qed

lemma pool_step_flow:
  assumes "pool_step proc s t" and "inv_flow proc repos s"
  shows "inv_flow proc repos t"
  using assms
proof (induction rule: pool_step.induct)
  case (take i s r rs)
  obtain A B where AB: "busy_repos (workers s) = A @ busy_repos [workers s ! i] @ B"
    "busy_repos ((workers s)[i := Busy r]) = A @ busy_repos [Busy r] @ B"
    using take.hyps(1) by (rule busy_repos_update)
  from take.prems show ?case by (rule inv_flow_shift) (insert take.hyps AB, simp_all add: pending_def)
next
  case (quit i s)
  obtain A B where AB: "busy_repos (workers s) = A @ busy_repos [workers s ! i] @ B"
    "busy_repos ((workers s)[i := Exited]) = A @ busy_repos [Exited] @ B"
    using quit.hyps(1) by (rule busy_repos_update)
  from quit.prems show ?case by (rule inv_flow_shift) (insert quit.hyps AB, simp_all add: pending_def)
next
  case (done_ok i s r r')
  obtain A B where AB: "busy_repos (workers s) = A @ busy_repos [workers s ! i] @ B"
    "busy_repos ((workers s)[i := Idle]) = A @ busy_repos [Idle] @ B"
    using done_ok.hyps(1) by (rule busy_repos_update)
  from done_ok.prems show ?case
    by (rule inv_flow_deliver [where P = "feed s @ jobs s @ A" and r = r and Q = B])
       (insert done_ok.hyps AB, simp_all add: pending_def)
next
  case (done_err i s r e)
  obtain A B where AB: "busy_repos (workers s) = A @ busy_repos [workers s ! i] @ B"
    "busy_repos ((workers s)[i := Idle]) = A @ busy_repos [Idle] @ B"
    using done_err.hyps(1) by (rule busy_repos_update)
  from done_err.prems show ?case
    by (rule inv_flow_deliver [where P = "feed s @ jobs s @ A" and r = r and Q = B])
       (insert done_err.hyps AB, simp_all add: pending_def)
qed (erule inv_flow_shift; simp add: pending_def)+

lemma busy_repos_replicate_Idle [simp]: "busy_repos (replicate n Idle) = []"
  by (induction n) (simp_all add: busy_repos_def)

lemma busy_repos_all_Exited:
  "\<forall>w \<in> set ws. w = Exited \<Longrightarrow> busy_repos ws = []"
  by (induction ws) (auto simp: busy_repos_def)

lemma Busy_in_busy_repos:
  "Busy r \<in> set ws \<Longrightarrow> r \<in> set (busy_repos ws)"
  by (induction ws) (auto simp: busy_repos_def split: worker.splits)

lemma pool_inv_init: "pool_inv proc repos (pool_init repos)"
  by (simp add: pool_inv_def inv_shape_def inv_flags_def inv_flow_def pool_init_def pending_def)

lemma pool_step_inv:
  "pool_step proc s t \<Longrightarrow> pool_inv proc repos s \<Longrightarrow> pool_inv proc repos t"
  by (simp add: pool_inv_def pool_step_shape pool_step_flags pool_step_flow)

lemma pool_reach_inv:
  "pool_reach proc repos s \<Longrightarrow> pool_inv proc repos s"
proof (induction rule: pool_reach.induct)
  case init
  show ?case by (rule pool_inv_init)
next
  case (step s t)
  then show ?case by (blast intro: pool_step_inv)
qed

text \<open>In a finished pool nothing is pending and both channels are drained.\<close>

lemma pool_done_drained:
  assumes "pool_inv proc repos s" and "pool_done s"
  shows "pending s = [] \<and> results s = [] \<and> errs s = []"
proof -
  from assms have flags: "inv_flags s" and shape: "inv_shape repos s" and flow: "inv_flow proc repos s"
    by (simp_all add: pool_inv_def)
  from flags assms(2) have out: "outs_closed s" "results s = []" "errs s = []"
    by (auto simp: inv_flags_def pool_done_def)
  with flags have all: "\<forall>w \<in> set (workers s). w = Exited" by (simp add: inv_flags_def)
  then have busy: "busy_repos (workers s) = []" by (rule busy_repos_all_Exited)
  show ?thesis
  proof (cases "workers s")
    case Nil
    with shape have "length repos = 0" by (auto simp: inv_shape_def max_workers_def min_def split: if_splits)
    with flow have "pending s = []" by (simp add: inv_flow_def)
    with out show ?thesis by simp
  next
    case (Cons w ws)
    with all have "Exited \<in> set (workers s)" by simp
    with flags have "jobs_closed s" "jobs s = []" "feed s = []" by (simp_all add: inv_flags_def)
    with busy out show ?thesis by (simp add: pending_def)
  qed
qed

lemma pool_room:
  assumes "pool_inv proc repos s"
  shows "feed s \<noteq> [] \<Longrightarrow> length (jobs s) < capacity s"
    and "Busy r \<in> set (workers s) \<Longrightarrow> length (results s) < capacity s \<and> length (errs s) < capacity s"
proof -
  from assms have cap: "capacity s = length repos"
    and len: "length (processed s @ results s) + length (failures s @ errs s) + length (pending s)
              = length repos"
    by (simp_all add: pool_inv_def inv_shape_def inv_flow_def)
  show "feed s \<noteq> [] \<Longrightarrow> length (jobs s) < capacity s"
    using cap len by (cases "feed s") (auto simp: pending_def)
  assume "Busy r \<in> set (workers s)"
  then have "r \<in> set (busy_repos (workers s))" by (rule Busy_in_busy_repos)
  then have "busy_repos (workers s) \<noteq> []" by auto
  then have pos: "0 < length (pending s)" by (simp add: pending_def)
  have "length (results s) + length (errs s) + length (pending s) \<le> length repos"
    using len by simp
  with pos cap show "length (results s) < capacity s \<and> length (errs s) < capacity s"
    by linarith
qed

lemma pool_busy_bound:
  "pool_inv proc repos s \<Longrightarrow> length (busy_repos (workers s)) \<le> min max_workers (length repos)"
  using length_map_filter_le [of _ "workers s"]
  by (auto simp: pool_inv_def inv_shape_def busy_repos_def)

section \<open>Progress and termination\<close>

text \<open>
  A weight that every move decreases: a repository not yet sent weighs 4, a queued one
  3, a busy worker 3, an idle one 1, a buffered outcome 1, each pending close or
  \<open>nil\<close>-ing 1.
\<close>

fun worker_weight :: "worker \<Rightarrow> nat" where
  "worker_weight Idle = 1"
| "worker_weight (Busy _) = 3"
| "worker_weight Exited = 0"

definition pool_measure :: "pool \<Rightarrow> nat" where
  "pool_measure s =
     4 * length (feed s) + 3 * length (jobs s) + sum_list (map worker_weight (workers s))
     + length (results s) + length (errs s)
     + (if jobs_closed s then 0 else 1) + (if outs_closed s then 0 else 1)
     + (if res_open s then 1 else 0) + (if err_open s then 1 else 0)"

lemma pool_step_measure:
  "pool_step proc s t \<Longrightarrow> pool_measure t < pool_measure s"
proof (induction rule: pool_step.induct)
  case (take i s r rs)
  then show ?case
    using sum_list_map_update [OF take.hyps(1), of worker_weight "Busy r"]
    by (simp add: pool_measure_def)
next
  case (quit i s)
  then show ?case
    using sum_list_map_update [OF quit.hyps(1), of worker_weight Exited]
    by (simp add: pool_measure_def)
next
  case (done_ok i s r r')
  then show ?case
    using sum_list_map_update [OF done_ok.hyps(1), of worker_weight Idle]
    by (simp add: pool_measure_def)
next
  case (done_err i s r e)
  then show ?case
    using sum_list_map_update [OF done_err.hyps(1), of worker_weight Idle]
    by (simp add: pool_measure_def)
qed (simp_all add: pool_measure_def)

lemma pool_steps_measure:
  "(pool_step proc ^^ k) s t \<Longrightarrow> pool_measure t + k \<le> pool_measure s"
proof (induction k arbitrary: t)
  case 0
  then show ?case by simp
next
  case (Suc k)
  from Suc.prems obtain u where su: "(pool_step proc ^^ k) s u" and ut: "pool_step proc u t"
    by (rule relpowp_Suc_E)
  from ut have "pool_measure t < pool_measure u" by (rule pool_step_measure)
  with Suc.IH [OF su] show ?case by simp
qed

lemma pool_measure_init:
  "pool_measure (pool_init repos) \<le> 5 * length repos + 4"
  by (simp add: pool_measure_def pool_init_def sum_list_replicate max_workers_def)

text \<open>
  Progress, one goroutine at a time: a busy worker whose call returned can deliver, an
  idle worker can take a job or exit once the jobs are closed, and once every worker
  has exited and the result channels are closed the collector can drain them.
\<close>

lemma busy_worker_progress:
  assumes inv: "pool_inv proc repos s" and ret: "\<forall>r \<in> set repos. proc r \<noteq> None"
    and i: "i < length (workers s)" "workers s ! i = Busy r"
  shows "\<exists>t. pool_step proc s t"
proof -
  have busy: "Busy r \<in> set (workers s)" using i by (metis nth_mem)
  then have room: "length (results s) < capacity s" "length (errs s) < capacity s"
    using pool_room(2) [OF inv] by blast+
  from busy have "r \<in> set (pending s)" by (auto simp: pending_def dest: Busy_in_busy_repos)
  moreover from inv have "mset (pending s) \<subseteq># mset repos"
    by (simp add: pool_inv_def inv_flow_def)
  ultimately have "r \<in> set repos" by (metis mset_subset_eqD set_mset_mset)
  with ret obtain x where x: "proc r = Some x" by auto
  show ?thesis
  proof (cases x)
    case (Inl e)
    with i x room show ?thesis by (blast intro: pool_step.done_err)
  next
    case (Inr r')
    with i x room show ?thesis by (blast intro: pool_step.done_ok)
  qed
qed

lemma idle_worker_progress:
  assumes "i < length (workers s)" "workers s ! i = Idle" and "jobs_closed s"
  shows "\<exists>t. pool_step proc s t"
proof (cases "jobs s")
  case Nil
  with assms show ?thesis by (blast intro: pool_step.quit)
next
  case (Cons r rs)
  with assms show ?thesis by (blast intro: pool_step.take)
qed

lemma no_busy_no_idle_all_Exited:
  assumes "\<not> (\<exists>i r. i < length (workers s) \<and> workers s ! i = Busy r)"
    and "\<not> (\<exists>i. i < length (workers s) \<and> workers s ! i = Idle)"
  shows "\<forall>w \<in> set (workers s). w = Exited"
proof
  fix w
  assume "w \<in> set (workers s)"
  then obtain i where "i < length (workers s)" "workers s ! i = w"
    by (auto simp: in_set_conv_nth)
  with assms show "w = Exited" by (cases w) auto
qed

lemma collector_progress:
  assumes "outs_closed s" and "\<not> pool_done s"
  shows "\<exists>t. pool_step proc s t"
proof -
  from assms(2) have "res_open s \<or> err_open s" by (simp add: pool_done_def)
  then show ?thesis
  proof
    assume "res_open s"
    with assms(1) show ?thesis
      by (cases "results s") (blast intro: pool_step.nil_results pool_step.recv_result)+
  next
    assume "err_open s"
    with assms(1) show ?thesis
      by (cases "errs s") (blast intro: pool_step.nil_errs pool_step.recv_err)+
  qed
qed

text \<open>If every processing call returns, an unfinished pool can always move.\<close>

lemma pool_progress:
  assumes inv: "pool_inv proc repos s" and nd: "\<not> pool_done s"
    and ret: "\<forall>r \<in> set repos. proc r \<noteq> None"
  shows "\<exists>t. pool_step proc s t"
proof (cases "feed s")
  case (Cons r rs)
  with pool_room(1) [OF inv] have "length (jobs s) < capacity s" by simp
  with Cons show ?thesis by (blast intro: pool_step.send)
next
  case Nil
  consider "\<not> jobs_closed s"
    | "jobs_closed s" "\<exists>i r. i < length (workers s) \<and> workers s ! i = Busy r"
    | "jobs_closed s" "\<exists>i. i < length (workers s) \<and> workers s ! i = Idle"
    | "\<forall>w \<in> set (workers s). w = Exited"
    using no_busy_no_idle_all_Exited by blast
  then show ?thesis
  proof cases
    case 1
    with Nil show ?thesis by (blast intro: pool_step.close_jobs)
  next
    case 2
    then show ?thesis using busy_worker_progress [OF inv ret] by blast
  next
    case 3
    then show ?thesis using idle_worker_progress by blast
  next
    case 4
    show ?thesis
    proof (cases "outs_closed s")
      case False
      with 4 show ?thesis by (blast intro: pool_step.close_outs)
    next
      case True
      then show ?thesis using nd by (rule collector_progress)
    qed
  qed
qed

lemma pool_completes_from:
  assumes "pool_reach proc repos s" and ret: "\<forall>r \<in> set repos. proc r \<noteq> None"
  shows "\<exists>t. (pool_step proc)\<^sup>*\<^sup>* s t \<and> pool_done t \<and> pool_reach proc repos t"
  using assms(1)
proof (induction "pool_measure s" arbitrary: s rule: less_induct)
  case less
  show ?case
  proof (cases "pool_done s")
    case True
    with less.prems show ?thesis by blast
  next
    case False
    obtain t where st: "pool_step proc s t"
      using pool_progress [OF pool_reach_inv [OF less.prems] False ret] by blast
    have "pool_measure t < pool_measure s" using st by (rule pool_step_measure)
    moreover have "pool_reach proc repos t" using less.prems st by (rule pool_reach.step)
    ultimately obtain u where "(pool_step proc)\<^sup>*\<^sup>* t u" "pool_done u" "pool_reach proc repos u"
      using less.hyps by blast
    with st show ?thesis by (blast intro: converse_rtranclp_into_rtranclp)
  qed
qed

text \<open>What a finished pool has collected, whichever order the goroutines ran in.\<close>

lemma pool_outcome:
  assumes "pool_reach proc repos s" and "pool_done s"
  shows "mset (processed s) = mset (oks proc repos) \<and> mset (failures s) = mset (fails proc repos)
         \<and> length (processed s) + length (failures s) = length repos"
proof -
  have inv: "pool_inv proc repos s" using assms(1) by (rule pool_reach_inv)
  have "pending s = [] \<and> results s = [] \<and> errs s = []" using inv assms(2) by (rule pool_done_drained)
  with inv show ?thesis by (simp add: pool_inv_def inv_flow_def oks_def fails_def)
qed

section \<open>Properties of the pool\<close>

abbreviation demo_proc :: "repository \<Rightarrow> repository result option" where
  "demo_proc \<equiv> \<lambda>r. if repo_full_name r = ''o/a'' then Some (Inr r)
                   else Some (Inl (InvalidRepoName (repo_full_name r)))"

abbreviation demo_repos :: "repository list" where
  "demo_repos \<equiv> [mk_repo ''o/a'' [], mk_repo ''bad'' []]"

lemma demo_pool_completes:
  "\<exists>t. pool_reach demo_proc demo_repos t \<and> pool_done t"
  using pool_completes_from [OF pool_reach.init [where proc = demo_proc and repos = demo_repos]] by auto

text \<open>
  C18 (functional): when the collector's loop ends, \<open>processedRepos\<close> holds exactly
  the successful results of \<open>processRepository\<close> and \<open>errors\<close> exactly the wrapped
  errors, one per input repository, each once, in some order.
\<close>

theorem pool_done_outcome:
  assumes "pool_reach proc repos s" and "pool_done s"
  shows "mset (processed s) = mset (oks proc repos) \<and> mset (failures s) = mset (fails proc repos)
         \<and> length (processed s) + length (failures s) = length repos"
  using assms by (rule pool_outcome)

theorem pool_done_outcome_witness:
  "\<exists>t. pool_reach demo_proc demo_repos t \<and> pool_done t \<and>
       processed t = [mk_repo ''o/a'' []] \<and> failures t = [RepositoryFailed ''bad'' (InvalidRepoName ''bad'')]"
proof -
  obtain t where t: "pool_reach demo_proc demo_repos t" "pool_done t"
    using demo_pool_completes by blast
  have "mset (processed t) = mset (oks demo_proc demo_repos) \<and>
        mset (failures t) = mset (fails demo_proc demo_repos) \<and>
        length (processed t) + length (failures t) = length demo_repos"
    using pool_done_outcome [OF t] .
  then have "mset (processed t) = {#mk_repo ''o/a'' []#}"
    and "mset (failures t) = {#RepositoryFailed ''bad'' (InvalidRepoName ''bad'')#}"
    by (simp_all add: oks_def fails_def)
  then have "processed t = [mk_repo ''o/a'' []]" "failures t = [RepositoryFailed ''bad'' (InvalidRepoName ''bad'')]"
    by (simp_all add: mset_single_iff)
  with t show ?thesis by blast
qed

text \<open>
  C19 (safety): the buffered channels never fill up: whenever the sender has a
  repository left, \<open>reposChan\<close> has room, and whenever a worker holds a repository,
  both \<open>resultsChan\<close> and \<open>errorsChan\<close> have room; so no send of the pool blocks.
\<close>

theorem pool_sends_never_block:
  assumes "pool_reach proc repos s"
  shows "(feed s \<noteq> [] \<longrightarrow> length (jobs s) < capacity s) \<and>
         (\<forall>r. Busy r \<in> set (workers s) \<longrightarrow>
              length (results s) < capacity s \<and> length (errs s) < capacity s)"
  using pool_room [OF pool_reach_inv [OF assms]] by blast

theorem pool_sends_never_block_witness:
  "length (jobs (pool_init demo_repos)) < capacity (pool_init demo_repos)"
proof -
  have "feed (pool_init demo_repos) \<noteq> []" by (simp add: pool_init_def)
  then show ?thesis
    using pool_sends_never_block [OF pool_reach.init [where proc = demo_proc and repos = demo_repos]] by blast
qed

text \<open>
  C20 (liveness): the pool never deadlocks: if every call of \<open>processRepository\<close>
  returns, every reachable state in which the collector has not finished can move.
\<close>

theorem pool_deadlock_free:
  assumes "pool_reach proc repos s" and "\<forall>r \<in> set repos. proc r \<noteq> None" and "\<not> pool_done s"
  shows "\<exists>t. pool_step proc s t"
  using pool_progress [OF pool_reach_inv [OF assms(1)] assms(3) assms(2)] .

theorem pool_deadlock_free_witness:
  "\<exists>t. pool_step demo_proc (pool_init demo_repos) t"
  using pool_deadlock_free [OF pool_reach.init [where proc = demo_proc and repos = demo_repos]]
  by (simp add: pool_done_def pool_init_def)

text \<open>
  C21 (termination): every run of the pool is finite: from the initial state, no run
  has more than \<open>5 * len(repos) + 4\<close> moves, whichever goroutine moves next.
\<close>

theorem pool_runs_bounded:
  assumes "(pool_step proc ^^ k) (pool_init repos) s"
  shows "k \<le> 5 * length repos + 4"
  using pool_steps_measure [OF assms] pool_measure_init [of repos] by linarith

theorem pool_runs_bounded_witness:
  "\<exists>k t. (pool_step demo_proc ^^ k) (pool_init demo_repos) t \<and> pool_done t \<and> k \<le> 14"
proof -
  obtain t where "(pool_step demo_proc)\<^sup>*\<^sup>* (pool_init demo_repos) t" and fin: "pool_done t"
    using pool_completes_from [OF pool_reach.init [where proc = demo_proc and repos = demo_repos]] by auto
  then obtain k where run: "(pool_step demo_proc ^^ k) (pool_init demo_repos) t"
    by (auto simp: rtranclp_power)
  have "k \<le> 5 * length demo_repos + 4" using run by (rule pool_runs_bounded)
  with run fin show ?thesis by auto
qed

text \<open>
  C22 (liveness): if every call of \<open>processRepository\<close> returns, the collector's loop
  ends: from the initial state a state with both channels \<open>nil\<close> is reachable, and
  by C21 every run gets there or stops earlier.
\<close>

theorem pool_terminates:
  assumes "\<forall>r \<in> set repos. proc r \<noteq> None"
  shows "\<exists>t. (pool_step proc)\<^sup>*\<^sup>* (pool_init repos) t \<and> pool_done t"
  using pool_completes_from [OF pool_reach.init assms] by blast

theorem pool_terminates_witness:
  "\<exists>t. (pool_step demo_proc)\<^sup>*\<^sup>* (pool_init demo_repos) t \<and> pool_done t"
  by (rule pool_terminates) simp

text \<open>
  C7 (bounds): at most ten repositories are processed at once, and never more than
  there are repositories: \<open>maxWorkers\<close> caps the goroutines started, and a worker
  holds one repository at a time.
\<close>

theorem pool_concurrency_bounded:
  assumes "pool_reach proc repos s"
  shows "length (busy_repos (workers s)) \<le> min 10 (length repos)"
  using pool_busy_bound [OF pool_reach_inv [OF assms]] by (simp add: max_workers_def)

theorem pool_concurrency_bounded_witness:
  "length (busy_repos (workers (pool_init demo_repos))) \<le> 2"
  using pool_concurrency_bounded [OF pool_reach.init [where proc = demo_proc and repos = demo_repos]]
  by simp

end
