(* ===== verification/Report.thy ===== *)
theory Report
  imports Coordinator
begin

text \<open>
  Report assembly, \<open>Reporter.GenerateReport\<close> (staged in
  \<^verbatim>\<open>src/internal/models/types.go\<close>, lines 332--411): list the repositories of the
  target through the client, run the worker pool of theory \<open>Coordinator\<close> with
  \<open>processRepository\<close> as the processing function, log the collected errors and
  build the report from the collected repositories and their summary. Since the pool
  does not fix the order of the collected repositories, \<open>generate_report\<close> is a
  relation between the inputs and every outcome some interleaving can give; an input
  with no outcome is a call that does not return.
\<close>

section \<open>GenerateReport\<close>

text \<open>\<open>Reporter\<close> holds the client it is built with (\<open>NewReporter\<close>); \<open>GenerateReport\<close>
  talks to the provider through that client.\<close>

record reporter =
  reporter_client :: github_api

definition new_reporter :: "github_api \<Rightarrow> reporter" where
  "new_reporter c = \<lparr>reporter_client = c\<rparr>"

definition report_of :: "string \<Rightarrow> time \<Rightarrow> time \<Rightarrow> repository list \<Rightarrow> report" where
  "report_of target since until ps =
     \<lparr>report_target = target, report_period = \<lparr>period_since = since, period_until = until\<rparr>,
      report_repositories = ps, report_summary = generate_summary ps\<rparr>"

text \<open>
  A well-formed report: its summary has an entry for exactly the author keys of its
  commits; each entry's totals are the sums of its per-repository counters, its
  identity fields give back its key, and its repositories are among the report's.
\<close>

definition report_wf :: "report \<Rightarrow> bool" where
  "report_wf rep \<longleftrightarrow>
     dom (report_summary rep) = key_of ` set (flat_commits (report_repositories rep))
     \<and> (\<forall>k st. report_summary rep k = Some st \<longrightarrow>
          contributor_ok st
          \<and> get_author_key \<lparr>author_name = cs_name st, author_email = cs_email st,
                            author_login = cs_login st\<rparr> = k
          \<and> dom (cs_repositories st) \<subseteq> repo_full_name ` set (report_repositories rep))"

inductive generate_report ::
  "github_api \<Rightarrow> string \<Rightarrow> time \<Rightarrow> time \<Rightarrow> report result \<Rightarrow> bool" for api target since until where
  list_failed: "list_repositories api target = Some (Inl e) \<Longrightarrow>
                generate_report api target since until (Inl (ListReposFailed e))"
| collected: "list_repositories api target = Some (Inr repos) \<Longrightarrow>
              pool_reach (process_repository api since until) repos s \<Longrightarrow> pool_done s \<Longrightarrow>
              generate_report api target since until (Inr (report_of target since until (processed s)))"

inductive_cases generate_report_InlE: "generate_report api target since until (Inl e)"
inductive_cases generate_report_InrE: "generate_report api target since until (Inr rep)"

section \<open>Lemmas\<close>

lemma reporter_client_new_reporter [simp]: "reporter_client (new_reporter c) = c"
  by (simp add: new_reporter_def)

lemma generate_report_Inr_collected:
  assumes "generate_report api target since until (Inr rep)"
  obtains repos where "list_repositories api target = Some (Inr repos)"
    and "mset (report_repositories rep) = mset (oks (process_repository api since until) repos)"
    and "report_target rep = target" and "report_period rep = \<lparr>period_since = since, period_until = until\<rparr>"
    and "report_summary rep = generate_summary (report_repositories rep)"
  using assms
proof (rule generate_report_InrE)
  fix repos s
  assume l: "list_repositories api target = Some (Inr repos)"
    and r: "pool_reach (process_repository api since until) repos s" and d: "pool_done s"
    and rep: "rep = report_of target since until (processed s)"
  have "mset (processed s) = mset (oks (process_repository api since until) repos)"
    using pool_outcome [OF r d] by blast
  with rep l that show ?thesis by (simp add: report_of_def)
qed

lemma list_repositories_terminates:
  assumes "pages_bounded (api_list_by_org api target) N" and "pages_bounded (api_list_user api target) N"
  shows "\<exists>r. list_repositories api target = Some r"
proof -
  obtain r1 where r1: "fetch_pages (api_list_by_org api target) 0 [] = Some r1"
    using fetch_pages_terminates [OF assms(1)] by blast
  obtain r2 where r2: "fetch_pages (api_list_user api target) 0 [] = Some r2"
    using fetch_pages_terminates [OF assms(2)] by blast
  show ?thesis using r1 r2
    by (cases r1) (auto simp: list_repositories_def list_user_repositories_def)
qed

lemma generate_report_exists:
  assumes "list_repositories api target = Some lr"
    and "\<forall>r \<in> set (case lr of Inr repos \<Rightarrow> repos | Inl _ \<Rightarrow> []).
           process_repository api since until r \<noteq> None"
  shows "\<exists>res. generate_report api target since until res"
proof (cases lr)
  case (Inl e)
  with assms(1) show ?thesis by (blast intro: generate_report.list_failed)
next
  case (Inr repos)
  with assms(2) have "\<forall>r \<in> set repos. process_repository api since until r \<noteq> None" by simp
  then obtain t where "(pool_step (process_repository api since until))\<^sup>*\<^sup>* (pool_init repos) t"
      "pool_done t" "pool_reach (process_repository api since until) repos t"
    using pool_completes_from [OF pool_reach.init] by blast
  with assms(1) Inr show ?thesis by (blast intro: generate_report.collected)
qed

lemma report_counts_mset:
  assumes "mset ps1 = mset ps2"
  shows "map_option contribution_counts (generate_summary ps1 k)
         = map_option contribution_counts (generate_summary ps2 k)"
proof -
  have "mset (flat_commits ps1) = mset (flat_commits ps2)" using assms by (rule mset_flat_commits)
  then have "map_option contribution_counts (summary_spec (flat_commits ps1) k)
             = map_option contribution_counts (summary_spec (flat_commits ps2) k)"
    by (rule summary_spec_counts_mset)
  then show ?thesis by (simp only: generate_summary_eq_spec)
qed

lemma oks_all_fail:
  "\<forall>r \<in> set repos. \<exists>e. proc r = Some (Inl e) \<Longrightarrow> oks proc repos = []"
  by (induction repos) (auto simp: oks_def List.map_filter_def)

lemma report_of_collected:
  assumes "generate_report api target since until (Inr rep)"
  shows "rep = report_of target since until (report_repositories rep)"
proof (rule generate_report_InrE [OF assms(1)])
  fix ps' assume "rep = report_of target since until ps'"
  then show ?thesis by (simp add: report_of_def)
qed

lemma contributor_of_None: "(contributor_of zs = None) = (zs = [])"
  by (simp add: contributor_of_def split: list.splits)

lemma summary_spec_Some_filter:
  assumes "summary_spec xs k = Some st"
  obtains y ys where "filter (\<lambda>y. key_of y = k) xs = y # ys" and "key_of y = k"
    and "st = the (contributor_of (y # ys))"
proof (cases "filter (\<lambda>y. key_of y = k) xs")
  case Nil
  with assms show ?thesis by (simp add: summary_spec_def contributor_of_def)
next
  case (Cons y ys)
  then have "y \<in> set (filter (\<lambda>y. key_of y = k) xs)" by simp
  then have "key_of y = k" by simp
  moreover have "st = the (contributor_of (y # ys))" using assms Cons by (simp add: summary_spec_def)
  ultimately show ?thesis using Cons that by blast
qed

lemma summary_spec_dom: "dom (summary_spec xs) = key_of ` set xs"
proof -
  have "(summary_spec xs k \<noteq> None) = (k \<in> key_of ` set xs)" for k
    by (simp add: summary_spec_def contributor_of_None filter_empty_conv image_iff) blast
  then show ?thesis by (auto simp: dom_def)
qed

lemma summary_spec_identity:
  assumes "summary_spec xs k = Some st"
  shows "get_author_key \<lparr>author_name = cs_name st, author_email = cs_email st, author_login = cs_login st\<rparr> = k"
proof -
  obtain y ys where "key_of y = k" and st: "st = the (contributor_of (y # ys))"
    using assms by (rule summary_spec_Some_filter)
  moreover have "\<lparr>author_name = cs_name st, author_email = cs_email st, author_login = cs_login st\<rparr>
                 = commit_author (snd y)"
    using st by (cases "commit_author (snd y)") (simp add: contributor_of_def)
  ultimately show ?thesis by simp
qed

lemma repo_rollup_dom: "dom (repo_rollup ys) \<subseteq> fst ` set ys"
  by (auto simp: repo_rollup_def Let_def filter_empty_conv split: if_splits)

lemma summary_spec_repos:
  assumes "summary_spec xs k = Some st"
  shows "dom (cs_repositories st) \<subseteq> fst ` set xs"
proof -
  obtain y ys where f: "filter (\<lambda>y. key_of y = k) xs = y # ys"
    and st: "st = the (contributor_of (y # ys))"
    using assms by (rule summary_spec_Some_filter)
  have "cs_repositories st = repo_rollup (y # ys)" using st by (simp add: contributor_of_def)
  moreover have "fst ` set (y # ys) \<subseteq> fst ` set xs" using f filter_is_subset by (metis image_mono)
  ultimately show ?thesis using repo_rollup_dom [of "y # ys"] by (metis subset_trans)
qed

lemma fst_flat_commits: "fst ` set (flat_commits rs) \<subseteq> repo_full_name ` set rs"
  by (auto simp: flat_commits_def)

lemma generate_summary_ok: "summary_ok (generate_summary repos)"
  using fold_add_commit_ok [OF summary_ok_empty] by (simp add: generate_summary_flat)

lemma report_of_wf: "report_wf (report_of target since until ps)"
proof -
  let ?xs = "flat_commits ps"
  have s: "generate_summary ps = summary_spec ?xs" by (rule generate_summary_eq_spec)
  have "\<forall>k st. generate_summary ps k = Some st \<longrightarrow> contributor_ok st"
    using generate_summary_ok [of ps] by (auto simp: summary_ok_def ranI)
  moreover have "\<forall>k st. generate_summary ps k = Some st \<longrightarrow>
      get_author_key \<lparr>author_name = cs_name st, author_email = cs_email st, author_login = cs_login st\<rparr> = k
      \<and> dom (cs_repositories st) \<subseteq> repo_full_name ` set ps"
    using summary_spec_identity summary_spec_repos fst_flat_commits unfolding s by blast
  ultimately show ?thesis by (simp add: report_wf_def report_of_def s summary_spec_dom)
qed

section \<open>The provider of the scenarios\<close>

abbreviation demo_repo1 :: repository where
  "demo_repo1 \<equiv> convert_repository (demo_gh_repo ''repo1'' ''owner/repo1'' False)"

abbreviation demo_bad :: repository where
  "demo_bad \<equiv> convert_repository (demo_gh_repo ''bad'' ''bad'' False)"

abbreviation demo_processed1 :: repository where
  "demo_processed1 \<equiv>
     demo_repo1\<lparr>repo_branches := [\<lparr>branch_name = ''main'', branch_sha = ''s1'',
        branch_commits = [convert_commit (demo_gh_commit ''c1'')
                            \<lparr>gs_additions = 10, gs_deletions = 5, gs_total = 16\<rparr>]\<rparr>]\<rparr>"

lemma demo_list_repositories:
  "list_repositories demo_api ''owner'' = Some (Inr [demo_repo1, demo_bad])"
  by (simp add: list_repositories_def list_user_repositories_def convert_repositories_def
                fetch_pages.simps)

lemma demo_process_repo1:
  "process_repository demo_api 0 1 demo_repo1 = Some (Inr demo_processed1)"
proof -
  have sel: "select_branches_to_process [\<lparr>branch_name = ''develop'', branch_sha = ''s2'', branch_commits = []\<rparr>,
               \<lparr>branch_name = ''main'', branch_sha = ''s1'', branch_commits = []\<rparr>] ''main''
             = [\<lparr>branch_name = ''main'', branch_sha = ''s1'', branch_commits = []\<rparr>,
                \<lparr>branch_name = ''develop'', branch_sha = ''s2'', branch_commits = []\<rparr>]"
    by (simp add: branch_select_defs)
  show ?thesis
    by (simp add: process_repository_def convert_repository_def list_branches_def convert_branch_def
                  list_commits_def fetch_pages.simps sel)
qed

lemma demo_process_bad:
  "process_repository demo_api 0 1 demo_bad = Some (Inl (InvalidRepoName ''bad''))"
  by (simp add: process_repository_def convert_repository_def)

lemma demo_report_exists:
  "\<exists>res. generate_report demo_api ''owner'' 0 1 res"
  using generate_report_exists [OF demo_list_repositories]
  by (simp add: demo_process_repo1 demo_process_bad)

lemma demo_report_unique:
  assumes "generate_report demo_api ''owner'' 0 1 res"
  shows "res = Inr (report_of ''owner'' 0 1 [demo_processed1])"
proof (cases res)
  case (Inl e)
  with assms show ?thesis
    by (auto elim!: generate_report_InlE simp: demo_list_repositories)
next
  case (Inr rep)
  with assms obtain repos where l: "list_repositories demo_api ''owner'' = Some (Inr repos)"
    and m: "mset (report_repositories rep) = mset (oks (process_repository demo_api 0 1) repos)"
    and r: "report_target rep = ''owner''" "report_period rep = \<lparr>period_since = 0, period_until = 1\<rparr>"
      "report_summary rep = generate_summary (report_repositories rep)"
    by (blast elim: generate_report_Inr_collected)
  from l have "repos = [demo_repo1, demo_bad]" by (simp add: demo_list_repositories)
  with m have "mset (report_repositories rep) = {#demo_processed1#}"
    by (simp add: oks_def demo_process_repo1 demo_process_bad)
  then have "report_repositories rep = [demo_processed1]" by (simp add: mset_single_iff)
  with r Inr show ?thesis by (cases rep) (simp add: report_of_def)
qed

section \<open>Properties of report assembly\<close>

text \<open>
  C23 (functional): a report that \<open>GenerateReport\<close> returns lists, in some order,
  exactly the repositories of the target that \<open>processRepository\<close> processed
  successfully, and carries the target, the period and the summary of those repositories.
\<close>

theorem generate_report_outcome:
  assumes "generate_report api target since until (Inr rep)"
  shows "\<exists>repos. list_repositories api target = Some (Inr repos)
           \<and> mset (report_repositories rep) = mset (oks (process_repository api since until) repos)
           \<and> report_target rep = target
           \<and> report_period rep = \<lparr>period_since = since, period_until = until\<rparr>
           \<and> report_summary rep = generate_summary (report_repositories rep)"
proof -
  obtain repos where l: "list_repositories api target = Some (Inr repos)"
    and m: "mset (report_repositories rep) = mset (oks (process_repository api since until) repos)"
    and "report_target rep = target" "report_period rep = \<lparr>period_since = since, period_until = until\<rparr>"
      "report_summary rep = generate_summary (report_repositories rep)"
    using assms by (rule generate_report_Inr_collected)
  with l m show ?thesis by blast
qed

theorem generate_report_outcome_witness:
  "\<exists>rep. generate_report demo_api ''owner'' 0 1 (Inr rep) \<and> report_repositories rep = [demo_processed1]"
proof -
  have "\<forall>r \<in> set [demo_repo1, demo_bad]. process_repository demo_api 0 1 r \<noteq> None"
    by (simp add: demo_process_repo1 demo_process_bad)
  then obtain res where g: "generate_report demo_api ''owner'' 0 1 res"
    using generate_report_exists [OF demo_list_repositories] by auto
  then obtain rep where rep: "res = Inr rep"
    by (cases rule: generate_report.cases) (simp_all add: demo_list_repositories)
  obtain repos where l: "list_repositories demo_api ''owner'' = Some (Inr repos)"
      and m: "mset (report_repositories rep) = mset (oks (process_repository demo_api 0 1) repos)"
    using generate_report_outcome [OF g [unfolded rep]] by blast
  from l have "repos = [demo_repo1, demo_bad]" by (simp add: demo_list_repositories)
  with m have "mset (report_repositories rep) = {#demo_processed1#}"
    by (simp add: oks_def demo_process_repo1 demo_process_bad)
  then have "report_repositories rep = [demo_processed1]" by (simp add: mset_single_iff)
  with g rep show ?thesis by blast
qed

text \<open>
  The counters of a report do not depend on how the goroutines
  interleaved: two reports for the same inputs list the same repositories up to order,
  and give every contributor the same commit, addition and deletion counts, globally
  and per repository.
\<close>

lemma generate_report_counts_determined:
  assumes "generate_report api target since until (Inr rep1)"
    and "generate_report api target since until (Inr rep2)"
  shows "mset (report_repositories rep1) = mset (report_repositories rep2)
         \<and> (\<forall>k. map_option contribution_counts (report_summary rep1 k)
                = map_option contribution_counts (report_summary rep2 k))"
proof -
  obtain repos1 where l1: "list_repositories api target = Some (Inr repos1)"
    and m1: "mset (report_repositories rep1) = mset (oks (process_repository api since until) repos1)"
    and r1: "report_summary rep1 = generate_summary (report_repositories rep1)"
    using assms(1) by (rule generate_report_Inr_collected)
  obtain repos2 where l2: "list_repositories api target = Some (Inr repos2)"
    and m2: "mset (report_repositories rep2) = mset (oks (process_repository api since until) repos2)"
    and r2: "report_summary rep2 = generate_summary (report_repositories rep2)"
    using assms(2) by (rule generate_report_Inr_collected)
  from l1 l2 m1 m2 have m: "mset (report_repositories rep1) = mset (report_repositories rep2)" by simp
  have "\<forall>k. map_option contribution_counts (generate_summary (report_repositories rep1) k)
              = map_option contribution_counts (generate_summary (report_repositories rep2) k)"
    using report_counts_mset [OF m] by blast
  with m r1 r2 show ?thesis by simp
qed

text \<open>
  C24 (error): \<open>GenerateReport\<close> fails only when listing the repositories failed,
  with that error wrapped; a repository that fails to process never fails the report.
\<close>

theorem generate_report_error:
  assumes "generate_report api target since until (Inl e)"
  shows "\<exists>e'. e = ListReposFailed e' \<and> list_repositories api target = Some (Inl e')"
  using assms by (rule generate_report_InlE) blast

theorem generate_report_error_witness:
  "\<exists>e'. ListReposFailed (ListUserReposFailed (ApiError ''401 Unauthorized'')) = ListReposFailed e'
        \<and> list_repositories (demo_api\<lparr>api_list_user := (\<lambda>t p. Inl (ApiError ''401 Unauthorized''))\<rparr>) ''octocat''
            = Some (Inl e')"
proof -
  have "list_repositories (demo_api\<lparr>api_list_user := (\<lambda>t p. Inl (ApiError ''401 Unauthorized''))\<rparr>) ''octocat''
        = Some (Inl (ListUserReposFailed (ApiError ''401 Unauthorized'')))"
    by (simp add: list_repositories_def list_user_repositories_def fetch_pages.simps)
  then have "generate_report (demo_api\<lparr>api_list_user := (\<lambda>t p. Inl (ApiError ''401 Unauthorized''))\<rparr>)
               ''octocat'' 0 1 (Inl (ListReposFailed (ListUserReposFailed (ApiError ''401 Unauthorized''))))"
    by (rule generate_report.list_failed)
  then show ?thesis by (rule generate_report_error)
qed

text \<open>
  C25 (error): a repository that fails does not fail the report: when the listing
  succeeds and every repository's processing fails (a malformed name, a branch listing
  error), \<open>GenerateReport\<close> still returns, and what it returns is the report with no
  repository and an empty summary.
\<close>

theorem generate_report_degrades:
  assumes "list_repositories api target = Some (Inr repos)"
    and "\<forall>r \<in> set repos. \<exists>e. process_repository api since until r = Some (Inl e)"
  shows "(\<exists>res. generate_report api target since until res)
         \<and> (\<forall>res. generate_report api target since until res
              \<longrightarrow> res = Inr (report_of target since until []))"
proof (intro conjI allI impI)
  show "\<exists>res. generate_report api target since until res"
    using assms by (intro generate_report_exists) auto
  fix res assume g: "generate_report api target since until res"
  show "res = Inr (report_of target since until [])"
  proof (cases res)
    case (Inl e)
    with g assms(1) show ?thesis by (auto elim: generate_report_InlE)
  next
    case (Inr rep)
    with g obtain repos' where "list_repositories api target = Some (Inr repos')"
      and m: "mset (report_repositories rep) = mset (oks (process_repository api since until) repos')"
      by (blast elim: generate_report_Inr_collected)
    with assms have "report_repositories rep = []" by (simp add: oks_all_fail)
    moreover have "rep = report_of target since until (report_repositories rep)"
      using g Inr by (blast intro: report_of_collected)
    ultimately show ?thesis using Inr by simp
  qed
qed

theorem generate_report_degrades_witness:
  "generate_report (demo_api\<lparr>api_list_branches := (\<lambda>ow r p. Inl (ApiError ''503''))\<rparr>) ''owner'' 0 1
     (Inr (report_of ''owner'' 0 1 []))"
proof -
  let ?api = "demo_api\<lparr>api_list_branches := (\<lambda>ow r p. Inl (ApiError ''503''))\<rparr>"
  have l: "list_repositories ?api ''owner'' = Some (Inr [demo_repo1, demo_bad])"
    by (simp add: list_repositories_def list_user_repositories_def convert_repositories_def
                  fetch_pages.simps)
  have "\<forall>r \<in> set [demo_repo1, demo_bad]. \<exists>e. process_repository ?api 0 1 r = Some (Inl e)"
    by (simp add: process_repository_def convert_repository_def list_branches_def fetch_pages.simps)
  with generate_report_degrades [OF l] obtain res where
    "generate_report ?api ''owner'' 0 1 res" and "res = Inr (report_of ''owner'' 0 1 [])" by blast
  then show ?thesis by simp
qed

text \<open>
  C26 (termination): when the provider's page links of every listing increase up to a
  last page, \<open>GenerateReport\<close> returns: every call of the client returns, every
  call of \<open>processRepository\<close> returns, and so the pool finishes.
\<close>

theorem generate_report_returns:
  assumes "pages_bounded (api_list_by_org api target) N" and "pages_bounded (api_list_user api target) N"
    and "\<forall>ow nm. pages_bounded (api_list_branches api ow nm) N"
    and "\<forall>ow nm b. pages_bounded (api_list_commits api ow nm b since until) N"
  shows "\<exists>res. generate_report api target since until res"
proof -
  obtain lr where "list_repositories api target = Some lr"
    using list_repositories_terminates [OF assms(1,2)] by blast
  moreover have "\<forall>r. process_repository api since until r \<noteq> None"
    using process_repository_terminates [OF assms(3,4)] by blast
  ultimately show ?thesis by (blast intro: generate_report_exists)
qed

theorem generate_report_returns_witness:
  "\<exists>res. generate_report demo_api ''owner'' 0 1 res"
proof (rule generate_report_returns [where N = 2])
  show "pages_bounded (api_list_by_org demo_api ''owner'') 2" by (simp add: pages_bounded_def)
  show "pages_bounded (api_list_user demo_api ''owner'') 2" by (simp add: pages_bounded_def)
  show "\<forall>ow nm. pages_bounded (api_list_branches demo_api ow nm) 2" by (simp add: pages_bounded_def)
  show "\<forall>ow nm b. pages_bounded (api_list_commits demo_api ow nm b 0 1) 2" by (simp add: pages_bounded_def)
qed

text \<open>
  C27 (functional): the end-to-end scenario. The organisation listing fails and the
  user has \<open>repo1\<close>, an archived repository and a repository named \<open>bad\<close> on two
  pages; listing the commits of \<open>develop\<close> fails and the details of commit \<open>c2\<close>
  fail. Every run returns the same report: the archived and the malformed repository
  are left out, \<open>repo1\<close> keeps only \<open>main\<close> with the one commit whose details
  succeeded, and the summary has one contributor, keyed by login, with one commit,
  10 additions and 5 deletions.
\<close>

theorem generate_report_scenario:
  "(\<exists>res. generate_report demo_api ''owner'' 0 1 res)
   \<and> (\<forall>res. generate_report demo_api ''owner'' 0 1 res
            \<longrightarrow> res = Inr (report_of ''owner'' 0 1 [demo_processed1]))
   \<and> dom (generate_summary [demo_processed1]) = {''johndoe''}
   \<and> map_option contribution_counts (generate_summary [demo_processed1] ''johndoe'')
       = Some (1, 10, 5, [''owner/repo1'' \<mapsto> \<lparr>rs_commits = 1, rs_additions = 10, rs_deletions = 5\<rparr>])"
proof (intro conjI)
  show "\<exists>res. generate_report demo_api ''owner'' 0 1 res" by (rule demo_report_exists)
  show "\<forall>res. generate_report demo_api ''owner'' 0 1 res
            \<longrightarrow> res = Inr (report_of ''owner'' 0 1 [demo_processed1])"
    using demo_report_unique by blast
  show "dom (generate_summary [demo_processed1]) = {''johndoe''}"
    by (simp add: aggregator_defs convert_commit_def convert_branch_def convert_repository_def Let_def)
  show "map_option contribution_counts (generate_summary [demo_processed1] ''johndoe'')
       = Some (1, 10, 5, [''owner/repo1'' \<mapsto> \<lparr>rs_commits = 1, rs_additions = 10, rs_deletions = 5\<rparr>])"
    by (simp add: aggregator_defs contribution_counts_def convert_commit_def convert_repository_def Let_def)
qed

theorem generate_report_scenario_witness:
  "generate_report demo_api ''owner'' 0 1 (Inr (report_of ''owner'' 0 1 [demo_processed1]))"
  using generate_report_scenario by blast

text \<open>
  C32 (type): every report \<open>GenerateReport\<close> returns is well-formed: the summary
  has exactly the author keys of the report's commits, each contributor's totals are
  the sums of its per-repository counters, its name, email and login give back its key,
  and it only names repositories of the report.
\<close>

theorem generate_report_well_formed:
  assumes "generate_report api target since until (Inr rep)"
  shows "report_wf rep"
  using assms by (rule generate_report_InrE) (simp add: report_of_wf)

theorem generate_report_well_formed_witness:
  "report_wf (report_of ''owner'' 0 1 [demo_processed1])"
proof -
  obtain res where g: "generate_report demo_api ''owner'' 0 1 res" using demo_report_exists by blast
  then have "generate_report demo_api ''owner'' 0 1 (Inr (report_of ''owner'' 0 1 [demo_processed1]))"
    using demo_report_unique [OF g] by simp
  then show ?thesis by (rule generate_report_well_formed)
qed

end
