(* ===== verification/Fmt.thy ===== *)
theory Fmt
  imports Models
begin

text \<open>
  How the writers print integers: \<open>%d\<close> of \<open>fmt\<close> in the CSV and text writers
  and \<open>strconv.AppendInt\<close> inside \<open>encoding/json\<close> both write the decimal digits
  of the signed value, with a minus sign when it is negative. A reader of such numbers
  and the line break complete the theory; the CSV, text and JSON writers import it.
\<close>

section \<open>Formatting integers\<close>

text \<open>
  \<open>fmt.Sprintf("%d", n)\<close> and \<open>fmt.Fprintf(w, "%d", n)\<close> on a Go \<open>int\<close>: decimal
  digits of the signed value, with a minus sign when it is negative.
\<close>

fun dec_nat :: "nat \<Rightarrow> string" where
  "dec_nat n =
     (if n < 10 then [char_of (48 + n)] else dec_nat (n div 10) @ [char_of (48 + n mod 10)])"

declare dec_nat.simps [simp del]

definition fmt_int :: "go_int \<Rightarrow> string" where
  "fmt_int x = (if sint x < 0 then CHR ''-'' # dec_nat (nat (- sint x)) else dec_nat (nat (sint x)))"

text \<open>A reader of the written numbers, as \<open>strconv.Atoi\<close> reads them back.\<close>

definition is_digit :: "char \<Rightarrow> bool" where
  "is_digit c \<longleftrightarrow> 48 \<le> (of_char c :: nat) \<and> (of_char c :: nat) \<le> 57"

definition digit_val :: "char \<Rightarrow> nat" where
  "digit_val c = of_char c - 48"

definition parse_nat :: "string \<Rightarrow> nat option" where
  "parse_nat ds =
     (if ds \<noteq> [] \<and> list_all is_digit ds then Some (foldl (\<lambda>a c. 10 * a + digit_val c) 0 ds) else None)"

definition parse_int :: "string \<Rightarrow> int option" where
  "parse_int s =
     (if s \<noteq> [] \<and> hd s = CHR ''-'' then map_option (\<lambda>n. - int n) (parse_nat (tl s))
      else map_option int (parse_nat s))"

abbreviation nl :: string where
  "nl \<equiv> [CHR 0x0A]"

section \<open>Lemmas\<close>

lemma char_of_digit:
  "d < 10 \<Longrightarrow> is_digit (char_of (48 + d)) \<and> digit_val (char_of (48 + d)) = d"
  by (simp add: is_digit_def digit_val_def of_char_of)

lemma dec_nat_small: "n < 10 \<Longrightarrow> dec_nat n = [char_of (48 + n)]"
  by (subst dec_nat.simps) simp

lemma dec_nat_big: "\<not> n < 10 \<Longrightarrow> dec_nat n = dec_nat (n div 10) @ [char_of (48 + n mod 10)]"
  by (subst dec_nat.simps) simp

lemma dec_nat_digits:
  "dec_nat n \<noteq> [] \<and> list_all is_digit (dec_nat n)
   \<and> foldl (\<lambda>a c. 10 * a + digit_val c) 0 (dec_nat n) = n"
proof (induction n rule: dec_nat.induct)
  case (1 n)
  show ?case
  proof (cases "n < 10")
    case True
    then show ?thesis using char_of_digit [OF True] by (simp add: dec_nat_small)
  next
    case False
    have d: "n mod 10 < 10" by simp
    from False 1 have "dec_nat (n div 10) \<noteq> [] \<and> list_all is_digit (dec_nat (n div 10))
       \<and> foldl (\<lambda>a c. 10 * a + digit_val c) 0 (dec_nat (n div 10)) = n div 10" by simp
    with False char_of_digit [OF d] show ?thesis by (simp add: dec_nat_big)
  qed
qed

lemma dec_nat_head_not_minus: "hd (dec_nat n) \<noteq> CHR ''-''"
proof -
  from dec_nat_digits [of n] have "is_digit (hd (dec_nat n))"
    by (cases "dec_nat n") simp_all
  then show ?thesis by (auto simp: is_digit_def)
qed

lemma parse_nat_dec_nat: "parse_nat (dec_nat n) = Some n"
  using dec_nat_digits [of n] by (simp add: parse_nat_def)

lemma parse_fmt_int: "parse_int (fmt_int x) = Some (sint x)"
  using dec_nat_digits [of "nat (sint x)"]
  by (simp add: fmt_int_def parse_int_def parse_nat_dec_nat dec_nat_head_not_minus)

lemma fmt_int_zero: "fmt_int 0 = ''0''"
  by code_simp

end
