(* ===== verification/Json.thy ===== *)
theory Json
  imports Fmt "HOL-Library.List_Lexorder" "HOL-Library.Char_ord" "HOL-Library.Sublist"
begin

text \<open>
  The JSON writer of the reporter, \<open>outputJSON\<close> (staged in
  \<^verbatim>\<open>src/internal/models/types.go\<close>, lines 555--567), and the part of
  \<open>encoding/json\<close> it relies on: \<open>json.MarshalIndent(report, "", "  ")\<close> on the
  structs of the models package. The encoding is split as \<open>encoding/json\<close> splits it:
  each struct becomes a JSON value (\<open>json\<close>) with one member per field, named by the
  field's \<open>json\<close> tag, in declaration order; the value is then printed with the
  indentation of \<open>MarshalIndent\<close>. Go details that the output depends on:
  \<^item> a slice that is \<open>nil\<close> is encoded as \<open>null\<close>. Every slice of a report the
    program builds starts as \<open>var xs []T\<close> and grows by \<open>append\<close>, so an empty list
    of the model is a \<open>nil\<close> slice and encodes as \<open>null\<close> (\<open>json_slice\<close>);
  \<^item> map members are written in increasing byte order of their keys, whatever the
    iteration order (\<open>json_map\<close>, with \<open>sorted_list_of_set\<close> on the
    lexicographic order of strings, bytes compared as unsigned values);
  \<^item> a \<open>time.Time\<close> is encoded by its \<open>MarshalJSON\<close>, an RFC 3339 string, which
    fails for a year outside 0..9999; the formatter is a parameter
    \<open>tf :: time \<Rightarrow> string option\<close> (\<open>None\<close>: the error), and a failure makes
    \<open>MarshalIndent\<close>, hence \<open>outputJSON\<close>, return the error;
  \<^item> strings are escaped as \<open>encoding/json\<close> does with HTML escaping on (Go 1.22 and
    later): quote and backslash by a backslash, \<open>\b \f \n \r \t\<close> by their short
    forms, the other control bytes and \<open><\<close>, \<open>>\<close>, \<open>&\<close> as \<open>\u00XX\<close> with
    lower-case hexadecimal digits, the UTF-8 encodings of U+2028 and U+2029 as
    the six-byte escapes of those code points, every other byte unchanged. Strings are
    byte lists that are valid UTF-8 (Go writes an invalid byte as the escape of U+FFFD,
    which is not modelled).
\<close>

section \<open>JSON values\<close>

datatype json = JNull | JNum go_int | JStr string | JArr "json list" | JObj "(string \<times> json) list"

section \<open>Strings\<close>

abbreviation bslash :: char where
  "bslash \<equiv> char_of (0x5C :: nat)"

abbreviation dquote :: char where
  "dquote \<equiv> char_of (0x22 :: nat)"

definition hex_digit :: "nat \<Rightarrow> char" where
  "hex_digit n = (if n < 10 then char_of (48 + n) else char_of (87 + n))"

text \<open>One byte below \<open>0x80\<close>, as \<open>encodeState.string\<close> writes it; bytes from \<open>0x80\<close> on
  are copied.\<close>

definition json_escape_char :: "char \<Rightarrow> string" where
  "json_escape_char c =
     (let b = (of_char c :: nat) in
      if 0x80 \<le> b then [c]
      else if b = 0x22 \<or> b = 0x5C then [bslash, c]
      else if b = 0x08 then [bslash, CHR ''b'']
      else if b = 0x0C then [bslash, CHR ''f'']
      else if b = 0x0A then [bslash, CHR ''n'']
      else if b = 0x0D then [bslash, CHR ''r'']
      else if b = 0x09 then [bslash, CHR ''t'']
      else if 0x20 \<le> b \<and> b \<noteq> 0x3C \<and> b \<noteq> 0x3E \<and> b \<noteq> 0x26 then [c]
      else [bslash, CHR ''u'', CHR ''0'', CHR ''0'', hex_digit (b div 16), hex_digit (b mod 16)])"

fun json_escape :: "string \<Rightarrow> string" where
  "json_escape (c1 # c2 # c3 # cs) =
     (if (of_char c1 :: nat) = 0xE2 \<and> (of_char c2 :: nat) = 0x80
         \<and> ((of_char c3 :: nat) = 0xA8 \<or> (of_char c3 :: nat) = 0xA9)
      then [bslash, CHR ''u'', CHR ''2'', CHR ''0'', CHR ''2'',
            if (of_char c3 :: nat) = 0xA8 then CHR ''8'' else CHR ''9'']
           @ json_escape cs
      else json_escape_char c1 @ json_escape (c2 # c3 # cs))"
| "json_escape cs = concat (map json_escape_char cs)"

definition json_quote :: "string \<Rightarrow> string" where
  "json_quote s = dquote # json_escape s @ [dquote]"

section \<open>MarshalIndent's layout\<close>

text \<open>
  With prefix \<open>""\<close> and indent \<open>"  "\<close>: every element and member on a line of its
  own, indented two spaces per level, \<open>": "\<close> after a key, \<open>[]\<close> and \<open>{}\<close> for
  empty arrays and objects, and no newline at the end.
\<close>

definition nl_indent :: "nat \<Rightarrow> string" where
  "nl_indent d = nl @ replicate (2 * d) (CHR '' '')"

fun json_text :: "nat \<Rightarrow> json \<Rightarrow> string"
and json_items :: "nat \<Rightarrow> json list \<Rightarrow> string"
and json_members :: "nat \<Rightarrow> (string \<times> json) list \<Rightarrow> string" where
  "json_text d JNull = ''null''"
| "json_text d (JNum n) = fmt_int n"
| "json_text d (JStr s) = json_quote s"
| "json_text d (JArr vs) =
     (if vs = [] then ''[]'' else ''['' @ json_items (Suc d) vs @ nl_indent d @ '']'')"
| "json_text d (JObj ms) =
     (if ms = [] then ''{}'' else ''{'' @ json_members (Suc d) ms @ nl_indent d @ ''}'')"
| "json_items d [] = []"
| "json_items d (v # vs) =
     nl_indent d @ json_text d v @ (if vs = [] then [] else '','' @ json_items d vs)"
| "json_members d [] = []"
| "json_members d ((k, v) # ms) =
     nl_indent d @ json_quote k @ '': '' @ json_text d v
     @ (if ms = [] then [] else '','' @ json_members d ms)"

section \<open>Encoding the models\<close>

definition json_slice :: "('a \<Rightarrow> json option) \<Rightarrow> 'a list \<Rightarrow> json option" where
  "json_slice f xs = (if xs = [] then Some JNull else map_option JArr (those (map f xs)))"

definition json_map :: "('v \<Rightarrow> json) \<Rightarrow> (string \<rightharpoonup> 'v) \<Rightarrow> json" where
  "json_map f m = JObj (map (\<lambda>k. (k, f (the (m k)))) (sorted_list_of_set (dom m)))"

definition json_author :: "author \<Rightarrow> json" where
  "json_author a =
     JObj [(''name'', JStr (author_name a)), (''email'', JStr (author_email a)),
           (''login'', JStr (author_login a))]"

definition json_commit_stats :: "commit_stats \<Rightarrow> json" where
  "json_commit_stats s =
     JObj [(''additions'', JNum (stat_additions s)), (''deletions'', JNum (stat_deletions s)),
           (''total'', JNum (stat_total s))]"

definition json_commit :: "(time \<Rightarrow> string option) \<Rightarrow> commit \<Rightarrow> json option" where
  "json_commit tf c =
     map_option (\<lambda>d. JObj [(''sha'', JStr (commit_sha c)), (''message'', JStr (commit_message c)),
                            (''author'', json_author (commit_author c)), (''date'', JStr d),
                            (''stats'', json_commit_stats (commit_stats c))])
       (tf (commit_date c))"

definition json_branch :: "(time \<Rightarrow> string option) \<Rightarrow> branch \<Rightarrow> json option" where
  "json_branch tf b =
     map_option (\<lambda>cs. JObj [(''name'', JStr (branch_name b)), (''sha'', JStr (branch_sha b)),
                             (''commits'', cs)])
       (json_slice (json_commit tf) (branch_commits b))"

definition json_repository :: "(time \<Rightarrow> string option) \<Rightarrow> repository \<Rightarrow> json option" where
  "json_repository tf r =
     map_option (\<lambda>bs. JObj [(''name'', JStr (repo_name r)), (''full_name'', JStr (repo_full_name r)),
                             (''url'', JStr (repo_url r)),
                             (''default_branch'', JStr (repo_default_branch r)),
                             (''branches'', bs)])
       (json_slice (json_branch tf) (repo_branches r))"

definition json_period :: "(time \<Rightarrow> string option) \<Rightarrow> period \<Rightarrow> json option" where
  "json_period tf p =
     (case (tf (period_since p), tf (period_until p)) of
        (Some s, Some u) \<Rightarrow> Some (JObj [(''since'', JStr s), (''until'', JStr u)])
      | _ \<Rightarrow> None)"

definition json_repository_stats :: "repository_stats \<Rightarrow> json" where
  "json_repository_stats rs =
     JObj [(''commits'', JNum (rs_commits rs)), (''additions'', JNum (rs_additions rs)),
           (''deletions'', JNum (rs_deletions rs))]"

definition json_contributor :: "contributor_stats \<Rightarrow> json" where
  "json_contributor cs =
     JObj [(''name'', JStr (cs_name cs)), (''email'', JStr (cs_email cs)),
           (''login'', JStr (cs_login cs)), (''total_commits'', JNum (total_commits cs)),
           (''total_additions'', JNum (total_additions cs)),
           (''total_deletions'', JNum (total_deletions cs)),
           (''repositories'', json_map json_repository_stats (cs_repositories cs))]"

definition json_report :: "(time \<Rightarrow> string option) \<Rightarrow> report \<Rightarrow> json option" where
  "json_report tf rep =
     (case (json_period tf (report_period rep), json_slice (json_repository tf) (report_repositories rep)) of
        (Some p, Some rs) \<Rightarrow>
          Some (JObj [(''target'', JStr (report_target rep)), (''period'', p),
                      (''repositories'', rs),
                      (''summary'', json_map json_contributor (report_summary rep))])
      | _ \<Rightarrow> None)"

section \<open>outputJSON\<close>

text \<open>The bytes \<open>outputJSON\<close> writes, or \<open>None\<close> when \<open>MarshalIndent\<close> returns an
  error.\<close>

definition json_output :: "(time \<Rightarrow> string option) \<Rightarrow> report \<Rightarrow> string option" where
  "json_output tf rep = map_option (json_text 0) (json_report tf rep)"

section \<open>Reading JSON back\<close>

text \<open>
  A reader for the JSON text the writer produces, after RFC 8259: string literals with
  their escapes (a \<open>\u\<close> escape gives the UTF-8 bytes of its code point),
  \<open>null\<close>, integers of Go's \<open>int\<close> range, arrays and objects, with whitespace
  between tokens. It is the specification side of the round-trip lemmas: what a JSON
  consumer of the report reads. Nesting is bounded by a fuel argument; the length of
  the input is always enough.
\<close>


definition hex_val :: "char \<Rightarrow> nat option" where
  "hex_val c =
     (let b = (of_char c :: nat) in
      if 48 \<le> b \<and> b \<le> 57 then Some (b - 48)
      else if 97 \<le> b \<and> b \<le> 102 then Some (b - 87)
      else if 65 \<le> b \<and> b \<le> 70 then Some (b - 55)
      else None)"

definition hex4 :: "char \<Rightarrow> char \<Rightarrow> char \<Rightarrow> char \<Rightarrow> nat option" where
  "hex4 a b c d =
     (case (hex_val a, hex_val b, hex_val c, hex_val d) of
        (Some w, Some x, Some y, Some z) \<Rightarrow> Some (((w * 16 + x) * 16 + y) * 16 + z)
      | _ \<Rightarrow> None)"

definition utf8 :: "nat \<Rightarrow> string" where
  "utf8 cp =
     (if cp < 0x80 then [char_of cp]
      else if cp < 0x800 then [char_of (0xC0 + cp div 64), char_of (0x80 + cp mod 64)]
      else [char_of (0xE0 + cp div 4096), char_of (0x80 + cp div 64 mod 64), char_of (0x80 + cp mod 64)])"

definition unescape :: "char \<Rightarrow> char option" where
  "unescape e =
     (let x = (of_char e :: nat) in
      if x = 0x22 \<or> x = 0x5C \<or> x = 0x2F then Some e
      else if x = 0x62 then Some (char_of (0x08 :: nat)) else if x = 0x66 then Some (char_of (0x0C :: nat))
      else if x = 0x6E then Some (char_of (0x0A :: nat)) else if x = 0x72 then Some (char_of (0x0D :: nat))
      else if x = 0x74 then Some (char_of (0x09 :: nat)) else None)"

fun read_str :: "string \<Rightarrow> (string \<times> string) option"
and read_esc :: "string \<Rightarrow> (string \<times> string) option" where
  "read_str [] = None"
| "read_str (c # cs) =
     (let x = (of_char c :: nat) in
      if x = 0x22 then Some ([], cs)
      else if x = 0x5C then read_esc cs
      else if x < 0x20 then None
      else map_option (apfst (Cons c)) (read_str cs))"
| "read_esc (e # h1 # h2 # h3 # h4 # cs) =
     (if (of_char e :: nat) = 0x75 then
        (case hex4 h1 h2 h3 h4 of
           Some cp \<Rightarrow> map_option (apfst ((@) (utf8 cp))) (read_str cs)
         | None \<Rightarrow> None)
      else case unescape e of
        Some c \<Rightarrow> map_option (apfst (Cons c)) (read_str (h1 # h2 # h3 # h4 # cs))
      | None \<Rightarrow> None)"
| "read_esc (e # cs) =
     (if (of_char e :: nat) = 0x75 then None
      else case unescape e of
        Some c \<Rightarrow> map_option (apfst (Cons c)) (read_str cs)
      | None \<Rightarrow> None)"
| "read_esc [] = None"

definition is_ws :: "char \<Rightarrow> bool" where
  "is_ws c \<longleftrightarrow> (of_char c :: nat) \<in> {0x20, 0x0A, 0x09, 0x0D}"

definition skip_ws :: "string \<Rightarrow> string" where
  "skip_ws = dropWhile is_ws"

definition expect :: "char \<Rightarrow> string \<Rightarrow> string option" where
  "expect c s = (case skip_ws s of d # r \<Rightarrow> if d = c then Some r else None | [] \<Rightarrow> None)"

definition parse_number :: "string \<Rightarrow> (go_int \<times> string) option" where
  "parse_number s =
     (let tok = (if s \<noteq> [] \<and> hd s = CHR ''-'' then CHR ''-'' # takeWhile is_digit (tl s)
                 else takeWhile is_digit s) in
      case parse_int tok of
        Some i \<Rightarrow> if - (2 ^ 63) \<le> i \<and> i < 2 ^ 63 then Some (word_of_int i, drop (length tok) s) else None
      | None \<Rightarrow> None)"

fun parse_value :: "nat \<Rightarrow> string \<Rightarrow> (json \<times> string) option"
and parse_items :: "nat \<Rightarrow> string \<Rightarrow> (json list \<times> string) option"
and parse_members :: "nat \<Rightarrow> string \<Rightarrow> ((string \<times> json) list \<times> string) option" where
  "parse_value 0 s = None"
| "parse_value (Suc n) s =
     (case skip_ws s of
        [] \<Rightarrow> None
      | c # r \<Rightarrow>
          if c = CHR ''n'' then (if take 3 r = ''ull'' then Some (JNull, drop 3 r) else None)
          else if c = dquote then map_option (apfst JStr) (read_str r)
          else if c = CHR ''['' then
            (case expect (CHR '']'') r of
               Some r' \<Rightarrow> Some (JArr [], r')
             | None \<Rightarrow> map_option (apfst JArr) (parse_items n r))
          else if c = CHR ''{'' then
            (case expect (CHR ''}'') r of
               Some r' \<Rightarrow> Some (JObj [], r')
             | None \<Rightarrow> map_option (apfst JObj) (parse_members n r))
          else map_option (apfst JNum) (parse_number (c # r)))"
| "parse_items 0 s = None"
| "parse_items (Suc n) s =
     (case parse_value n s of
        None \<Rightarrow> None
      | Some (v, r) \<Rightarrow>
          (case expect (CHR '','') r of
             Some r' \<Rightarrow> map_option (apfst (Cons v)) (parse_items n r')
           | None \<Rightarrow> map_option (\<lambda>r'. ([v], r')) (expect (CHR '']'') r)))"
| "parse_members 0 s = None"
| "parse_members (Suc n) s =
     (case expect dquote s of
        None \<Rightarrow> None
      | Some r \<Rightarrow>
          (case read_str r of
             None \<Rightarrow> None
           | Some (k, r1) \<Rightarrow>
               (case expect (CHR '':'') r1 of
                  None \<Rightarrow> None
                | Some r2 \<Rightarrow>
                    (case parse_value n r2 of
                       None \<Rightarrow> None
                     | Some (v, r3) \<Rightarrow>
                         (case expect (CHR '','') r3 of
                            Some r4 \<Rightarrow> map_option (apfst (Cons (k, v))) (parse_members n r4)
                          | None \<Rightarrow> map_option (\<lambda>r4. ([(k, v)], r4)) (expect (CHR ''}'') r3))))))"

definition json_parse :: "string \<Rightarrow> json option" where
  "json_parse s =
     (case parse_value (length s) s of
        Some (j, r) \<Rightarrow> if skip_ws r = [] then Some j else None
      | None \<Rightarrow> None)"

definition delim :: "string \<Rightarrow> bool" where
  "delim r \<longleftrightarrow> r = [] \<or> \<not> is_digit (hd r)"

text \<open>A byte that may appear in a string literal embedded in HTML: no control byte and
  none of \<open><\<close>, \<open>>\<close>, \<open>&\<close>.\<close>

definition html_safe_char :: "char \<Rightarrow> bool" where
  "html_safe_char c \<longleftrightarrow>
     0x20 \<le> (of_char c :: nat) \<and> (of_char c :: nat) \<noteq> 0x3C \<and> (of_char c :: nat) \<noteq> 0x3E
     \<and> (of_char c :: nat) \<noteq> 0x26"

text \<open>A value nested in another, through array elements and object members.\<close>

inductive json_within :: "json \<Rightarrow> json \<Rightarrow> bool" where
  refl: "json_within j j"
| arr: "v \<in> set vs \<Longrightarrow> json_within j v \<Longrightarrow> json_within j (JArr vs)"
| obj: "(k, v) \<in> set ms \<Longrightarrow> json_within j v \<Longrightarrow> json_within j (JObj ms)"

section \<open>Fixtures\<close>

text \<open>A formatter for the two instants of the fixture, and a report whose only
  repository has no branch left, as when every branch fetch of it failed.\<close>

definition demo_rfc3339 :: "time \<Rightarrow> string option" where
  "demo_rfc3339 t =
     (if t = 0 then Some ''1970-01-01T00:00:00Z'' else if t = 86400 then Some ''1970-01-02T00:00:00Z''
      else None)"

definition json_demo_report :: report where
  "json_demo_report =
     \<lparr>report_target = ''owner'', report_period = \<lparr>period_since = 0, period_until = 86400\<rparr>,
      report_repositories =
        [\<lparr>repo_name = ''r'', repo_full_name = ''owner/r'', repo_url = [], repo_default_branch = ''main'',
          repo_branches = []\<rparr>],
      report_summary = Map.empty\<rparr>"

section \<open>Lemmas\<close>

lemma hex_val_hex_digit: "n < 16 \<Longrightarrow> hex_val (hex_digit n) = Some n"
  by (auto simp: hex_val_def hex_digit_def of_char_of)

lemma read_esc_simple:
  "(of_char e :: nat) \<noteq> 0x75 \<Longrightarrow>
   read_esc (e # cs) = (case unescape e of Some c \<Rightarrow> map_option (apfst (Cons c)) (read_str cs) | None \<Rightarrow> None)"
  by (cases cs rule: read_esc.cases) (auto split: option.split)

lemma read_str_plain:
  "(b :: nat) < 256 \<Longrightarrow> b \<noteq> 0x22 \<Longrightarrow> b \<noteq> 0x5C \<Longrightarrow> 0x20 \<le> b \<Longrightarrow>
   read_str (char_of b # t) = map_option (apfst (Cons (char_of b))) (read_str t)"
  by (simp add: Let_def)

lemma hex4_byte:
  "(b :: nat) < 0x80 \<Longrightarrow> hex4 (CHR ''0'') (CHR ''0'') (hex_digit (b div 16)) (hex_digit (b mod 16)) = Some b"
  by (simp add: hex4_def hex_val_hex_digit) (simp add: hex_val_def)

lemma utf8_byte: "(b :: nat) < 0x80 \<Longrightarrow> utf8 b = [char_of b]"
  by (simp add: utf8_def)

lemma append_singleton_fun: "(@) [x] = Cons x"
  by (rule ext) simp

lemma read_str_escape_char:
  "read_str (json_escape_char c @ t) = map_option (apfst (Cons c)) (read_str t)"
proof -
  define b where "b = (of_char c :: nat)"
  have b256: "b < 256" using nat_of_char_less_256 [of c] by (simp add: b_def)
  have cb: "c = char_of b" by (simp add: b_def)
  show ?thesis
    unfolding json_escape_char_def Let_def b_def [symmetric] cb
    by (auto simp: read_str_plain read_esc_simple unescape_def hex4_byte utf8_byte append_singleton_fun b256)
qed


lemma hex4_line_separator:
  "hex4 (CHR ''2'') (CHR ''0'') (CHR ''2'') (CHR ''8'') = Some 0x2028"
  "hex4 (CHR ''2'') (CHR ''0'') (CHR ''2'') (CHR ''9'') = Some 0x2029"
  by (simp_all add: hex4_def hex_val_def)

lemma utf8_line_separator:
  "utf8 0x2028 = [char_of (0xE2 :: nat), char_of (0x80 :: nat), char_of (0xA8 :: nat)]"
  "utf8 0x2029 = [char_of (0xE2 :: nat), char_of (0x80 :: nat), char_of (0xA9 :: nat)]"
  by (simp_all add: utf8_def)

lemma char_of_eq_of_char: "(of_char c :: nat) = n \<Longrightarrow> char_of n = c"
  by auto

lemma read_str_escape: "read_str (json_escape s @ dquote # t) = Some (s, t)"
proof (induction s rule: json_escape.induct)
  case (1 c1 c2 c3 cs)
  then show ?case
    by (auto simp: read_str_escape_char hex4_line_separator utf8_line_separator char_of_eq_of_char)
qed (simp_all add: read_str_escape_char)


lemma skip_ws_ws: "list_all is_ws w \<Longrightarrow> skip_ws (w @ s) = skip_ws s"
  by (induction w) (simp_all add: skip_ws_def)

lemma skip_ws_Cons: "\<not> is_ws c \<Longrightarrow> skip_ws (c # s) = c # s"
  by (simp add: skip_ws_def)

lemma nl_indent_ws: "list_all is_ws (nl_indent d)"
  by (simp add: nl_indent_def is_ws_def list_all_iff)

lemma parse_value_ws: "list_all is_ws w \<Longrightarrow> parse_value n (w @ s) = parse_value n s"
  by (cases n) (simp_all add: skip_ws_ws)

lemma expect_Cons: "\<not> is_ws c \<Longrightarrow> expect d (c # s) = (if c = d then Some s else None)"
  by (simp add: expect_def skip_ws_Cons)

lemma expect_ws: "list_all is_ws w \<Longrightarrow> expect d (w @ s) = expect d s"
  by (simp add: expect_def skip_ws_ws)

lemma takeWhile_digits:
  "list_all is_digit ds \<Longrightarrow> delim r \<Longrightarrow> takeWhile is_digit (ds @ r) = ds"
proof (induction ds)
  case Nil
  then show ?case by (cases r) (simp_all add: delim_def)
qed simp

lemma fmt_int_head: "\<exists>c cs. fmt_int x = c # cs \<and> (c = CHR ''-'' \<or> is_digit c)"
proof -
  obtain c cs where "dec_nat (nat \<bar>sint x\<bar>) = c # cs" and "is_digit c"
    using dec_nat_digits [of "nat \<bar>sint x\<bar>"] by (cases "dec_nat (nat \<bar>sint x\<bar>)") auto
  then show ?thesis by (auto simp: fmt_int_def)
qed

lemma parse_number_fmt_int:
  assumes "delim r"
  shows "parse_number (fmt_int x @ r) = Some (x, r)"
proof -
  have ne: "dec_nat n \<noteq> [] \<and> list_all is_digit (dec_nat n)" for n
    using dec_nat_digits [of n] by simp
  have tok: "(if fmt_int x @ r \<noteq> [] \<and> hd (fmt_int x @ r) = CHR ''-''
              then CHR ''-'' # takeWhile is_digit (tl (fmt_int x @ r))
              else takeWhile is_digit (fmt_int x @ r)) = fmt_int x"
    using ne dec_nat_head_not_minus assms by (simp add: fmt_int_def takeWhile_digits)
  have "- (2 ^ 63) \<le> sint x \<and> sint x < 2 ^ 63"
    using sint_ge [of x] sint_lt [of x] by simp
  then show ?thesis
    unfolding parse_number_def Let_def tok by (simp add: parse_fmt_int)
qed

lemma json_text_head:
  "\<exists>c cs. json_text d j = c # cs \<and> \<not> is_ws c \<and> c \<noteq> CHR '']'' \<and> c \<noteq> CHR ''}''"
proof (cases j)
  case (JNum x)
  then show ?thesis using fmt_int_head [of x] by (auto simp: is_ws_def is_digit_def)
qed (auto simp: json_quote_def is_ws_def char_of_def)


lemma char_of_eq_iff: "(char_of (n :: nat) = c) = (n mod 256 = of_char c)"
  by (metis char_of_char char_of_mod_256 of_char_of)

lemma eq_char_of_iff: "(c = char_of (n :: nat)) = (of_char c = n mod 256)"
  using char_of_eq_iff [of n c] by auto

lemma fuel_Suc: "length (c # cs) \<le> n \<Longrightarrow> \<exists>m. n = Suc m \<and> length cs \<le> m"
  by (cases n) auto

lemma parse_json_text:
  "\<forall>n r. length (json_text d j) \<le> n \<longrightarrow> delim r \<longrightarrow> parse_value n (json_text d j @ r) = Some (j, r)"
  "vs \<noteq> [] \<longrightarrow> (\<forall>n r e. length (json_items d vs) \<le> n \<longrightarrow>
     parse_items n (json_items d vs @ nl_indent e @ CHR '']'' # r) = Some (vs, r))"
  "ms \<noteq> [] \<longrightarrow> (\<forall>n r e. length (json_members d ms) \<le> n \<longrightarrow>
     parse_members n (json_members d ms @ nl_indent e @ CHR ''}'' # r) = Some (ms, r))"
proof (induction d j and d vs and d ms rule: json_text_json_items_json_members.induct)
  case (1 d)
  show ?case
  proof (intro allI impI)
    fix n r assume "length (json_text d JNull) \<le> n"
    then obtain m where "n = Suc m" using fuel_Suc [of "CHR ''n''" "''ull''"] by auto
    then show "parse_value n (json_text d JNull @ r) = Some (JNull, r)"
      by (simp add: skip_ws_Cons is_ws_def)
  qed
next
  case (2 d x)
  obtain c cs where h: "fmt_int x = c # cs" and c: "c = CHR ''-'' \<or> is_digit c"
    using fmt_int_head [of x] by blast
  have nc: "\<not> is_ws c \<and> c \<noteq> CHR ''n'' \<and> c \<noteq> dquote \<and> c \<noteq> CHR ''['' \<and> c \<noteq> CHR ''{''"
    using c by (auto simp: is_digit_def is_ws_def eq_char_of_iff)
  show ?case
  proof (intro allI impI)
    fix n r assume "length (json_text d (JNum x)) \<le> n" and r: "delim r"
    then obtain m where "n = Suc m" using fuel_Suc [of c cs] h by auto
    then show "parse_value n (json_text d (JNum x) @ r) = Some (JNum x, r)"
      using parse_number_fmt_int [OF r, of x] nc h by (simp add: skip_ws_Cons)
  qed
next
  case (3 d s)
  show ?case
  proof (intro allI impI)
    fix n r assume "length (json_text d (JStr s)) \<le> n"
    then obtain m where "n = Suc m" by (cases n) (auto simp: json_quote_def)
    then show "parse_value n (json_text d (JStr s) @ r) = Some (JStr s, r)"
      by (simp add: json_quote_def skip_ws_Cons is_ws_def char_of_eq_iff read_str_escape)
  qed
next
  case (4 d vs)
  show ?case
  proof (intro allI impI)
    fix n r assume len: "length (json_text d (JArr vs)) \<le> n"
    then obtain m where n: "n = Suc m" and lm: "vs \<noteq> [] \<Longrightarrow> length (json_items (Suc d) vs) \<le> m"
      by (cases n) (auto split: if_split_asm)
    show "parse_value n (json_text d (JArr vs) @ r) = Some (JArr vs, r)"
    proof (cases vs)
      case Nil
      then show ?thesis by (simp add: n skip_ws_Cons expect_Cons is_ws_def eq_char_of_iff)
    next
      case (Cons v vs')
      obtain c cs where h: "json_text (Suc d) v = c # cs" "\<not> is_ws c" "c \<noteq> CHR '']''"
        using json_text_head [of "Suc d" v] by blast
      have none: "expect (CHR '']'') (json_items (Suc d) vs @ nl_indent d @ CHR '']'' # r) = None"
        using h by (simp add: Cons expect_ws nl_indent_ws expect_Cons)
      have "parse_items m (json_items (Suc d) vs @ nl_indent d @ CHR '']'' # r) = Some (vs, r)"
        using "4.IH" lm Cons by simp
      moreover have "vs \<noteq> []" using Cons by simp
      ultimately show ?thesis using none
        by (simp add: n skip_ws_Cons is_ws_def eq_char_of_iff del: json_items.simps)
    qed
  qed
next
  case (5 d ms)
  show ?case
  proof (intro allI impI)
    fix n r assume len: "length (json_text d (JObj ms)) \<le> n"
    then obtain m where n: "n = Suc m" and lm: "ms \<noteq> [] \<Longrightarrow> length (json_members (Suc d) ms) \<le> m"
      by (cases n) (auto split: if_split_asm)
    show "parse_value n (json_text d (JObj ms) @ r) = Some (JObj ms, r)"
    proof (cases ms)
      case Nil
      then show ?thesis by (simp add: n skip_ws_Cons expect_Cons is_ws_def eq_char_of_iff)
    next
      case (Cons kv ms')
      obtain k v where kv: "kv = (k, v)" by (cases kv)
      have none: "expect (CHR ''}'') (json_members (Suc d) ms @ nl_indent d @ CHR ''}'' # r) = None"
        by (simp add: Cons kv json_quote_def expect_ws nl_indent_ws expect_Cons is_ws_def char_of_eq_iff)
      have "parse_members m (json_members (Suc d) ms @ nl_indent d @ CHR ''}'' # r) = Some (ms, r)"
        using "5.IH" lm Cons by simp
      moreover have "ms \<noteq> []" using Cons by simp
      ultimately show ?thesis using none
        by (simp add: n skip_ws_Cons is_ws_def eq_char_of_iff del: json_members.simps)
    qed
  qed
next
  case (6 d)
  then show ?case by simp
next
  case (7 d v vs)
  show ?case
  proof (intro impI allI)
    fix n r e assume len: "length (json_items d (v # vs)) \<le> n"
    define R where "R = (if vs = [] then [] else CHR '','' # json_items d vs) @ nl_indent e @ CHR '']'' # r"
    have eq: "json_items d (v # vs) @ nl_indent e @ CHR '']'' # r = nl_indent d @ json_text d v @ R"
      by (simp add: R_def)
    obtain m where n: "n = Suc m"
      and lv: "length (json_text d v) \<le> m"
      and ls: "vs \<noteq> [] \<Longrightarrow> length (json_items d vs) \<le> m"
      using len by (cases n) (auto simp: nl_indent_def split: if_split_asm)
    have dR: "delim R" by (cases vs) (simp_all add: R_def delim_def nl_indent_def is_digit_def)
    have v: "parse_value m (nl_indent d @ json_text d v @ R) = Some (v, R)"
      using "7.IH"(1) lv dR by (simp add: parse_value_ws nl_indent_ws)
    show "parse_items n (json_items d (v # vs) @ nl_indent e @ CHR '']'' # r) = Some (v # vs, r)"
    proof (cases "vs = []")
      case True
      then have R: "R = nl_indent e @ CHR '']'' # r" by (simp add: R_def)
      show ?thesis unfolding eq n
        using v by (simp add: True R expect_ws expect_Cons nl_indent_ws is_ws_def)
    next
      case False
      then have R: "R = CHR '','' # json_items d vs @ nl_indent e @ CHR '']'' # r" by (simp add: R_def)
      have "parse_items m (json_items d vs @ nl_indent e @ CHR '']'' # r) = Some (vs, r)"
        using "7.IH"(2) False ls by simp
      then show ?thesis unfolding eq n
        using v by (simp add: R expect_Cons is_ws_def)
    qed
  qed
next
  case (8 d)
  then show ?case by simp
next
  case (9 d k v ms)
  show ?case
  proof (intro impI allI)
    fix n r e assume len: "length (json_members d ((k, v) # ms)) \<le> n"
    define R where "R = (if ms = [] then [] else CHR '','' # json_members d ms) @ nl_indent e @ CHR ''}'' # r"
    have eq: "json_members d ((k, v) # ms) @ nl_indent e @ CHR ''}'' # r
              = nl_indent d @ dquote # json_escape k @ dquote # CHR '':'' # CHR '' '' # json_text d v @ R"
      by (simp add: R_def json_quote_def)
    obtain m where n: "n = Suc m"
      and lv: "length (json_text d v) \<le> m"
      and ls: "ms \<noteq> [] \<Longrightarrow> length (json_members d ms) \<le> m"
      using len by (cases n) (auto simp: nl_indent_def json_quote_def split: if_split_asm)
    have dR: "delim R" by (cases ms) (simp_all add: R_def delim_def nl_indent_def is_digit_def)
    have v: "parse_value m (CHR '' '' # json_text d v @ R) = Some (v, R)"
      using "9.IH"(1) lv dR parse_value_ws [of "[CHR '' '']"] by (simp add: is_ws_def)
    have key: "expect dquote (nl_indent d @ dquote # json_escape k @ dquote # CHR '':'' # CHR '' '' # json_text d v @ R)
               = Some (json_escape k @ dquote # CHR '':'' # CHR '' '' # json_text d v @ R)"
      by (simp add: expect_ws nl_indent_ws expect_Cons is_ws_def)
    show "parse_members n (json_members d ((k, v) # ms) @ nl_indent e @ CHR ''}'' # r) = Some ((k, v) # ms, r)"
    proof (cases "ms = []")
      case True
      then have R: "R = nl_indent e @ CHR ''}'' # r" by (simp add: R_def)
      show ?thesis unfolding eq n
        using v key by (simp add: True R read_str_escape expect_ws expect_Cons nl_indent_ws is_ws_def)
    next
      case False
      then have R: "R = CHR '','' # json_members d ms @ nl_indent e @ CHR ''}'' # r" by (simp add: R_def)
      have "parse_members m (json_members d ms @ nl_indent e @ CHR ''}'' # r) = Some (ms, r)"
        using "9.IH"(2) False ls by simp
      then show ?thesis unfolding eq n
        using v key by (simp add: R read_str_escape expect_Cons is_ws_def)
    qed
  qed
qed


lemma json_text_parses:
  "delim r \<Longrightarrow> parse_value (length (json_text d j @ r)) (json_text d j @ r) = Some (j, r)"
  using parse_json_text(1) [of d j] by simp

lemma those_map_Some:
  "those (map f xs) = Some ys \<Longrightarrow> x \<in> set xs \<Longrightarrow> \<exists>y \<in> set ys. f x = Some y"
  by (induction xs arbitrary: ys) (auto split: option.splits)

lemma json_slice_Some:
  "json_slice f xs = Some j \<Longrightarrow> x \<in> set xs \<Longrightarrow> \<exists>vs y. j = JArr vs \<and> y \<in> set vs \<and> f x = Some y"
  by (auto simp: json_slice_def dest: those_map_Some split: if_split_asm)

lemma sublist_appL: "sublist x y \<Longrightarrow> sublist x (a @ y)"
  by (metis sublist_append_leftI sublist_order.order.trans)

lemma sublist_appR: "sublist x y \<Longrightarrow> sublist x (y @ a)"
  by (metis sublist_append_rightI sublist_order.order.trans)

lemma sublist_ConsI: "sublist x y \<Longrightarrow> sublist x (c # y)"
  by (simp add: sublist_Cons_right)

lemma sublist_wrapI: "sublist x y \<Longrightarrow> sublist x (c # y @ z)"
  by (intro sublist_ConsI sublist_appR)

lemma json_items_sublist: "v \<in> set vs \<Longrightarrow> sublist (json_text d v) (json_items d vs)"
proof (induction vs)
  case (Cons a vs)
  show ?case
  proof (cases "v = a")
    case True
    then show ?thesis by (simp add: sublist_appendI)
  next
    case False
    with Cons have "vs \<noteq> []" and "sublist (json_text d v) (json_items d vs)" by auto
    then show ?thesis by (simp add: sublist_appL sublist_ConsI)
  qed
qed simp

lemma json_members_sublist:
  "(k, v) \<in> set ms \<Longrightarrow> sublist (json_quote k @ '': '' @ json_text d v) (json_members d ms)"
proof (induction ms)
  case (Cons kv ms)
  obtain k' v' where kv: "kv = (k', v')" by (cases kv)
  show ?case
  proof (cases "kv = (k, v)")
    case True
    then show ?thesis using sublist_appendI [of "json_quote k @ '': '' @ json_text d v" "nl_indent d"]
      by (simp add: kv)
  next
    case False
    with Cons have "ms \<noteq> []" and "sublist (json_quote k @ '': '' @ json_text d v) (json_members d ms)" by auto
    then show ?thesis by (simp add: kv sublist_appL sublist_ConsI)
  qed
qed simp

lemma json_within_member_text:
  assumes "json_within a j" and "a = JObj ms" and "(k, v) \<in> set ms"
  shows "\<exists>e. sublist (json_quote k @ '': '' @ json_text e v) (json_text d j)"
  using assms(1,2)
proof (induction arbitrary: d rule: json_within.induct)
  case (refl j)
  have "sublist (json_quote k @ '': '' @ json_text (Suc d) v) (json_members (Suc d) ms)"
    using json_members_sublist [OF assms(3)] .
  moreover have "ms \<noteq> []" using assms(3) by auto
  ultimately have "sublist (json_quote k @ '': '' @ json_text (Suc d) v) (json_text d j)"
    by (simp add: refl sublist_wrapI)
  then show ?case by blast
next
  case (arr w vs j)
  obtain e where e: "sublist (json_quote k @ '': '' @ json_text e v) (json_text (Suc d) w)"
    using arr.IH arr.prems by blast
  have "sublist (json_text (Suc d) w) (json_items (Suc d) vs)"
    using json_items_sublist [OF arr.hyps(1)] .
  moreover have "vs \<noteq> []" using arr.hyps(1) by auto
  ultimately have "sublist (json_text (Suc d) w) (json_text d (JArr vs))"
    by (simp add: sublist_wrapI)
  with e show ?case by (meson sublist_order.order.trans)
next
  case (obj k' w ms' j)
  obtain e where e: "sublist (json_quote k @ '': '' @ json_text e v) (json_text (Suc d) w)"
    using obj.IH obj.prems by blast
  have "sublist (json_quote k' @ '': '' @ json_text (Suc d) w) (json_members (Suc d) ms')"
    using json_members_sublist [OF obj.hyps(1)] .
  then have "sublist (json_text (Suc d) w) (json_members (Suc d) ms')"
    by (metis sublist_append_leftI sublist_order.order.trans append_assoc)
  moreover have "ms' \<noteq> []" using obj.hyps(1) by auto
  ultimately have "sublist (json_text (Suc d) w) (json_text d (JObj ms'))"
    by (simp add: sublist_wrapI)
  with e show ?case by (meson sublist_order.order.trans)
qed

lemma json_within_trans: "json_within b c \<Longrightarrow> json_within a b \<Longrightarrow> json_within a c"
  by (induction rule: json_within.induct) (auto intro: json_within.intros)

lemma of_char_hex_digit:
  "(n :: nat) < 16 \<Longrightarrow> (of_char (hex_digit n) :: nat) = (if n < 10 then 48 + n else 87 + n)"
  by (simp add: hex_digit_def)

lemma html_safe_escape_char: "list_all html_safe_char (json_escape_char c)"
proof -
  define b where "b = (of_char c :: nat)"
  have hex: "html_safe_char (hex_digit (b div 16)) \<and> html_safe_char (hex_digit (b mod 16))"
    if "b < 0x80" using that by (simp add: html_safe_char_def of_char_hex_digit)
  show ?thesis
    unfolding json_escape_char_def Let_def b_def [symmetric]
    using hex by (auto simp: html_safe_char_def b_def)
qed

lemma json_output_parts:
  assumes "json_output tf rep = Some s"
  obtains rs where "s = json_text 0 (JObj [(''target'', JStr (report_target rep)),
                       (''period'', the (json_period tf (report_period rep))), (''repositories'', rs),
                       (''summary'', json_map json_contributor (report_summary rep))])"
    and "json_slice (json_repository tf) (report_repositories rep) = Some rs"
  using assms by (auto simp: json_output_def json_report_def split: option.splits)

lemma json_repository_branches:
  "json_repository tf r = Some y \<Longrightarrow>
   \<exists>ms bs. y = JObj ms \<and> (''branches'', bs) \<in> set ms \<and> json_slice (json_branch tf) (repo_branches r) = Some bs"
  by (auto simp: json_repository_def)

lemma json_branch_commits:
  "json_branch tf b = Some y \<Longrightarrow>
   \<exists>ms cs. y = JObj ms \<and> (''commits'', cs) \<in> set ms \<and> json_slice (json_commit tf) (branch_commits b) = Some cs"
  by (auto simp: json_branch_def)

lemma json_slice_Nil: "json_slice f [] = Some JNull"
  by (simp add: json_slice_def)

lemma null_member_text:
  "json_within (JObj ms) j \<Longrightarrow> (k, JNull) \<in> set ms \<Longrightarrow>
   sublist (json_quote k @ '': null'') (json_text d j)"
  using json_within_member_text [of "JObj ms" j ms k JNull d] by auto

lemma those_map_total: "(\<forall>x \<in> set xs. f x \<noteq> None) \<Longrightarrow> those (map f xs) \<noteq> None"
  by (induction xs) auto

lemma json_slice_total: "(\<forall>x \<in> set xs. f x \<noteq> None) \<Longrightarrow> json_slice f xs \<noteq> None"
  using those_map_total [of xs f] by (auto simp: json_slice_def)

text \<open>With a formatter that formats every time, \<open>MarshalIndent\<close> never fails.\<close>

lemma json_output_total:
  assumes "\<forall>t. tf t \<noteq> None"
  shows "json_output tf rep \<noteq> None"
proof -
  have c: "json_commit tf c \<noteq> None" for c using assms by (simp add: json_commit_def)
  have b: "json_branch tf b \<noteq> None" for b
    using json_slice_total [of "branch_commits b" "json_commit tf"] c by (simp add: json_branch_def)
  have r: "json_repository tf r \<noteq> None" for r
    using json_slice_total [of "repo_branches r" "json_branch tf"] b by (simp add: json_repository_def)
  obtain rs where rs: "json_slice (json_repository tf) (report_repositories rep) = Some rs"
    using json_slice_total [of "report_repositories rep" "json_repository tf"] r by blast
  obtain s u where "tf (period_since (report_period rep)) = Some s" "tf (period_until (report_period rep)) = Some u"
    using assms by blast
  with rs show ?thesis by (simp add: json_output_def json_report_def json_period_def)
qed

text \<open>
  What \<open>outputJSON\<close> writes is valid JSON that the reader parses back to exactly the
  encoded value: string escapes, numbers, nesting and layout lose nothing.
\<close>

lemma json_output_roundtrip:
  assumes "json_output tf rep = Some s"
  shows "json_parse s = json_report tf rep"
proof -
  from assms obtain j where j: "json_report tf rep = Some j" and s: "s = json_text 0 j"
    by (auto simp: json_output_def)
  have "parse_value (length s) s = Some (j, [])"
    using json_text_parses [of "[]" 0 j] by (simp add: s delim_def)
  then show ?thesis by (simp add: json_parse_def j skip_ws_def)
qed

text \<open>
  \<open>outputJSON\<close> writes an empty list of the report as \<open>null\<close>, not
  \<open>[]\<close>: a report with no repository has \<open>"repositories": null\<close>, a repository
  none of whose branches could be fetched has \<open>"branches": null\<close> (where the spec
  speaks of an empty branch list), and a branch without commits \<open>"commits": null\<close>.
\<close>

lemma json_output_nil_slices:
  assumes "json_output tf rep = Some s"
  shows "(report_repositories rep = [] \<longrightarrow> sublist (json_quote ''repositories'' @ '': null'') s)
         \<and> (\<forall>r \<in> set (report_repositories rep). repo_branches r = [] \<longrightarrow>
              sublist (json_quote ''branches'' @ '': null'') s)
         \<and> (\<forall>r \<in> set (report_repositories rep). \<forall>b \<in> set (repo_branches r). branch_commits b = [] \<longrightarrow>
              sublist (json_quote ''commits'' @ '': null'') s)"
proof -
  obtain rs where s: "s = json_text 0 (JObj [(''target'', JStr (report_target rep)),
                       (''period'', the (json_period tf (report_period rep))), (''repositories'', rs),
                       (''summary'', json_map json_contributor (report_summary rep))])"
    (is "s = json_text 0 (JObj ?top)")
    and rs: "json_slice (json_repository tf) (report_repositories rep) = Some rs"
    using assms by (rule json_output_parts)
  have top: "(''repositories'', rs) \<in> set ?top" by simp
  have c1: "sublist (json_quote ''repositories'' @ '': null'') s" if "report_repositories rep = []"
    using that rs top null_member_text [of ?top "JObj ?top" "''repositories''" 0, OF json_within.refl]
    by (simp add: s json_slice_Nil)
  have repo: "\<exists>ms bs. json_within (JObj ms) (JObj ?top) \<and> (''branches'', bs) \<in> set ms
                \<and> json_slice (json_branch tf) (repo_branches r) = Some bs"
    if r: "r \<in> set (report_repositories rep)" for r
  proof -
    obtain vs y where "rs = JArr vs" "y \<in> set vs" "json_repository tf r = Some y"
      using json_slice_Some [OF rs r] by blast
    moreover obtain ms bs where "y = JObj ms" "(''branches'', bs) \<in> set ms"
      "json_slice (json_branch tf) (repo_branches r) = Some bs"
      using json_repository_branches [OF calculation(3)] by blast
    ultimately show ?thesis
      using top by (blast intro: json_within.intros)
  qed
  have c2: "sublist (json_quote ''branches'' @ '': null'') s"
    if r: "r \<in> set (report_repositories rep)" and nb: "repo_branches r = []" for r
  proof -
    obtain ms bs where w: "json_within (JObj ms) (JObj ?top)" and m: "(''branches'', bs) \<in> set ms"
      and bs: "json_slice (json_branch tf) (repo_branches r) = Some bs"
      using repo [OF r] by blast
    from bs nb have "bs = JNull" by (simp add: json_slice_Nil)
    with w m have "sublist (json_quote ''branches'' @ '': null'') (json_text 0 (JObj ?top))"
      using null_member_text by blast
    then show ?thesis by (simp only: s)
  qed
  have c3: "sublist (json_quote ''commits'' @ '': null'') s"
    if r: "r \<in> set (report_repositories rep)" and b: "b \<in> set (repo_branches r)"
      and nb: "branch_commits b = []" for r b
  proof -
    obtain ms bs where w: "json_within (JObj ms) (JObj ?top)" and m: "(''branches'', bs) \<in> set ms"
      and bs: "json_slice (json_branch tf) (repo_branches r) = Some bs"
      using repo [OF r] by blast
    obtain vs y where bv: "bs = JArr vs" and yv: "y \<in> set vs" and yb: "json_branch tf b = Some y"
      using json_slice_Some [OF bs b] by blast
    obtain ms' cs where y: "y = JObj ms'" and c: "(''commits'', cs) \<in> set ms'"
      and cs: "json_slice (json_commit tf) (branch_commits b) = Some cs"
      using json_branch_commits [OF yb] by blast
    have "json_within y (JObj ms)"
      using m bv yv by (blast intro: json_within.intros)
    then have "json_within (JObj ms') (JObj ?top)"
      using json_within_trans [OF w] y by simp
    moreover have "(''commits'', JNull) \<in> set ms'" using c cs nb by (simp add: json_slice_Nil)
    ultimately have "json_within (JObj ms') (JObj ?top)" and "(''commits'', JNull) \<in> set ms'" .
    then have "sublist (json_quote ''commits'' @ '': null'') (json_text 0 (JObj ?top))"
      using null_member_text by blast
    then show ?thesis by (simp only: s)
  qed
  show ?thesis using c1 c2 c3 by blast
qed

lemma json_output_nil_slices_witness:
  "json_output demo_rfc3339 json_demo_report \<noteq> None
   \<and> sublist (json_quote ''branches'' @ '': null'') (the (json_output demo_rfc3339 json_demo_report))"
proof -
  have "json_output demo_rfc3339 json_demo_report \<noteq> None"
    by (simp add: json_output_def json_report_def json_period_def json_slice_def json_repository_def
                  demo_rfc3339_def json_demo_report_def)
  then obtain s where s: "json_output demo_rfc3339 json_demo_report = Some s" by blast
  let ?r = "hd (report_repositories json_demo_report)"
  have "?r \<in> set (report_repositories json_demo_report)" and "repo_branches ?r = []"
    by (simp_all add: json_demo_report_def)
  then have "sublist (json_quote ''branches'' @ '': null'') s"
    using json_output_nil_slices [OF s] by blast
  with s show ?thesis by simp
qed

text \<open>
  The escaping of \<open>encoding/json\<close> leaves no control byte and none of
  \<open><\<close>, \<open>>\<close>, \<open>&\<close> in a string literal, so the JSON written by
  \<open>outputJSON\<close> can be embedded in an HTML page whatever names and commit messages the
  provider returns.
\<close>

lemma json_escape_html_safe: "list_all html_safe_char (json_escape s)"
proof (induction s rule: json_escape.induct)
  case (1 c1 c2 c3 cs)
  have "list_all html_safe_char [bslash, CHR ''u'', CHR ''2'', CHR ''0'', CHR ''2'']"
    and "html_safe_char (CHR ''8'')" and "html_safe_char (CHR ''9'')"
    by (simp_all add: html_safe_char_def)
  with 1 show ?case by (simp add: html_safe_escape_char)
qed (simp_all add: html_safe_escape_char)

end
