(* ===== verification/Output.thy ===== *)
theory Output
  imports Json
begin

text \<open>
  The output collaborators of the reporter (staged in \<^verbatim>\<open>src/internal/models/types.go\<close>,
  lines 541--692): \<open>OutputReport\<close> dispatches on the format name to the JSON, CSV and
  text writers. The text and JSON writers are modelled down to the bytes they write
  (the JSON encoding is theory \<open>Json\<close>), the CSV writer down to its records. Go's map iteration order and the
  result of \<open>sort.Slice\<close> (which is not stable) are not determined by the code: they
  are parameters, constrained by predicates that say what Go guarantees of them.
  Whether the file is created or written, and which write of the CSV writer fails, are
  decided by the operating system: they are parameters too, and each failure the
  writers return is a branch of the model; the errors the writers drop (\<open>fmt.Print\<close>,
  \<open>fmt.Fprintf\<close>, the deferred \<open>Flush\<close> and \<open>Close\<close>) are dropped by the model.
\<close>

section \<open>Orders chosen by the runtime\<close>

text \<open>
  \<open>for k := range m\<close> visits every key of \<open>m\<close> once, in an order the runtime picks;
  \<open>sort.Slice(xs, less)\<close> with \<open>less(i, j) = w(xs[i]) > w(xs[j])\<close> leaves a
  permutation in which no element is followed by a heavier one. The weights are Go
  \<open>int\<close> sums, so they wrap, and they are compared as signed values.
\<close>

definition enumerates :: "('k \<rightharpoonup> 'v) \<Rightarrow> 'k list \<Rightarrow> bool" where
  "enumerates m ks \<longleftrightarrow> distinct ks \<and> set ks = dom m"

definition by_weight_desc :: "('k \<Rightarrow> go_int) \<Rightarrow> 'k list \<Rightarrow> bool" where
  "by_weight_desc w ks \<longleftrightarrow> sorted_wrt (\<lambda>a b. sint (w b) \<le> sint (w a)) ks"

definition contribution_weight :: "contributor_stats \<Rightarrow> go_int" where
  "contribution_weight st = total_additions st + total_deletions st"

definition repo_weight :: "repository_stats \<Rightarrow> go_int" where
  "repo_weight rs = rs_additions rs + rs_deletions rs"

text \<open>\<open>report.Summary[k]\<close> and \<open>stats.Repositories[name]\<close>: the zero value when absent.\<close>

definition zero_contributor :: contributor_stats where
  "zero_contributor =
     \<lparr>cs_name = [], cs_email = [], cs_login = [], total_commits = 0, total_additions = 0,
      total_deletions = 0, cs_repositories = Map.empty\<rparr>"

definition summary_at :: "summary \<Rightarrow> string \<Rightarrow> contributor_stats" where
  "summary_at summ k = (case summ k of Some st \<Rightarrow> st | None \<Rightarrow> zero_contributor)"

definition repo_stats_at :: "contributor_stats \<Rightarrow> string \<Rightarrow> repository_stats" where
  "repo_stats_at st rn =
     (case cs_repositories st rn of Some rs \<Rightarrow> rs
      | None \<Rightarrow> \<lparr>rs_commits = 0, rs_additions = 0, rs_deletions = 0\<rparr>)"

section \<open>CSV\<close>

definition csv_header :: "string list" where
  "csv_header = [''Author'', ''Login'', ''Email'', ''Repository'', ''Commits'', ''Additions'', ''Deletions'']"

definition csv_record :: "contributor_stats \<Rightarrow> string \<Rightarrow> repository_stats \<Rightarrow> string list" where
  "csv_record st rn rs =
     [cs_name st, cs_login st, cs_email st, rn,
      fmt_int (rs_commits rs), fmt_int (rs_additions rs), fmt_int (rs_deletions rs)]"

text \<open>
  \<open>ks\<close> is the sorted list of contributor keys; \<open>order k\<close> the order in which
  \<open>range stats.Repositories\<close> visits the repositories of \<open>k\<close>.
\<close>

definition csv_rows :: "summary \<Rightarrow> string list \<Rightarrow> (string \<Rightarrow> string list) \<Rightarrow> string list list" where
  "csv_rows summ ks order =
     concat (map (\<lambda>k. let st = summary_at summ k in
                    List.map_filter (\<lambda>rn. map_option (csv_record st rn) (cs_repositories st rn)) (order k))
                 ks)"

definition csv_output :: "summary \<Rightarrow> string list \<Rightarrow> (string \<Rightarrow> string list) \<Rightarrow> string list list" where
  "csv_output summ ks order = csv_header # csv_rows summ ks order"

definition csv_choices_ok :: "summary \<Rightarrow> string list \<Rightarrow> (string \<Rightarrow> string list) \<Rightarrow> bool" where
  "csv_choices_ok summ ks order \<longleftrightarrow>
     enumerates summ ks \<and> by_weight_desc (contribution_weight \<circ> summary_at summ) ks
     \<and> (\<forall>k \<in> set ks. enumerates (cs_repositories (summary_at summ k)) (order k))"

section \<open>Text\<close>

text \<open>The loop over the sorted repository names that stops at \<open>i >= 5\<close>.\<close>

definition top_repositories :: "string list \<Rightarrow> string list" where
  "top_repositories rns = take 5 rns"

definition repo_line :: "contributor_stats \<Rightarrow> string \<Rightarrow> string" where
  "repo_line st rn =
     (let rs = repo_stats_at st rn in
      ''    - '' @ rn @ '': '' @ fmt_int (rs_commits rs) @ '' commits (+'' @ fmt_int (rs_additions rs)
      @ ''/-'' @ fmt_int (rs_deletions rs) @ '')'' @ nl)"

definition text_block :: "contributor_stats \<Rightarrow> string list \<Rightarrow> string" where
  "text_block st rns =
     cs_name st @ (if cs_login st \<noteq> [] then '' (@'' @ cs_login st @ '')'' else []) @ nl
     @ (if cs_email st \<noteq> [] then ''  Email: '' @ cs_email st @ nl else [])
     @ ''  Total Commits: '' @ fmt_int (total_commits st) @ nl
     @ ''  Total Additions: '' @ fmt_int (total_additions st) @ nl
     @ ''  Total Deletions: '' @ fmt_int (total_deletions st) @ nl
     @ ''  Repositories: '' @ fmt_int (of_nat (card (dom (cs_repositories st)))) @ nl
     @ ''  Top Repositories:'' @ nl
     @ concat (map (repo_line st) (top_repositories rns))
     @ nl"

text \<open>
  \<open>date\<close> is \<open>Time.Format("2006-01-02")\<close>; \<open>ks\<close> the sorted contributor keys;
  \<open>order k\<close> the sorted repository names of \<open>k\<close>.
\<close>

definition text_output ::
  "report \<Rightarrow> (time \<Rightarrow> string) \<Rightarrow> string list \<Rightarrow> (string \<Rightarrow> string list) \<Rightarrow> string" where
  "text_output rep date ks order =
     ''GitHub Activity Report for: '' @ report_target rep @ nl
     @ ''Period: '' @ date (period_since (report_period rep)) @ '' to ''
     @ date (period_until (report_period rep)) @ nl
     @ ''Repositories analyzed: '' @ fmt_int (of_nat (length (report_repositories rep))) @ nl @ nl
     @ ''CONTRIBUTOR SUMMARY'' @ nl
     @ ''=================='' @ nl @ nl
     @ concat (map (\<lambda>k. text_block (summary_at (report_summary rep) k) (order k)) ks)"

definition text_choices_ok :: "summary \<Rightarrow> string list \<Rightarrow> (string \<Rightarrow> string list) \<Rightarrow> bool" where
  "text_choices_ok summ ks order \<longleftrightarrow>
     enumerates summ ks \<and> by_weight_desc (contribution_weight \<circ> summary_at summ) ks
     \<and> (\<forall>k \<in> set ks. enumerates (cs_repositories (summary_at summ k)) (order k)
          \<and> by_weight_desc (repo_weight \<circ> repo_stats_at (summary_at summ k)) (order k))"

section \<open>OutputReport\<close>

text \<open>
  Where a writer writes: standard output (\<open>os.Stdout\<close>, named \<open>/dev/stdout\<close> in
  the errors of its writes) or the file \<open>outputFile\<close> names.
\<close>

datatype sink = Stdout | File string

definition sink_name :: "sink \<Rightarrow> string" where
  "sink_name s = (case s of Stdout \<Rightarrow> ''/dev/stdout'' | File p \<Rightarrow> p)"

text \<open>What a successful call leaves written, and where.\<close>

datatype report_output =
    JsonOutput sink string
  | CsvOutput sink "string list list"
  | TextOutput sink string

text \<open>
  What the writer's runtime and the operating system decide: the map iteration and
  \<open>sort.Slice\<close> orders; the formatting of times (\<open>Time.Format("2006-01-02")\<close> for
  the text writer, the RFC 3339 encoding of \<open>Time.MarshalJSON\<close>, \<open>None\<close> when it
  fails, for the JSON writer); whether \<open>os.Create\<close> and \<open>os.WriteFile\<close> succeed on a
  path; and the first call of \<open>writer.Write\<close> (the header is call 0) that reports
  an error of the buffered writer underneath, if any.
\<close>

record output_choices =
  oc_contributors :: "string list"
  oc_repositories :: "string \<Rightarrow> string list"
  oc_date :: "time \<Rightarrow> string"
  oc_rfc3339 :: "time \<Rightarrow> string option"
  oc_create :: "string \<Rightarrow> bool"
  oc_write_file :: "string \<Rightarrow> bool"
  oc_csv_fail :: "nat option"

text \<open>
  The opening shared by the CSV and text writers: standard output when
  \<open>outputFile\<close> is empty, else \<open>os.Create(outputFile)\<close>, whose error is returned.
  The deferred \<open>Close\<close> drops its error.
\<close>

definition open_output :: "output_choices \<Rightarrow> string \<Rightarrow> sink result" where
  "open_output ch file =
     (if file = [] then Inr Stdout
      else if oc_create ch file then Inr (File file) else Inl (CreateFailed file))"

text \<open>
  \<open>outputJSON\<close>: \<open>MarshalIndent\<close>, then \<open>fmt.Print\<close> (its error dropped) or
  \<open>os.WriteFile\<close> (its error returned).
\<close>

definition output_json :: "report \<Rightarrow> string \<Rightarrow> output_choices \<Rightarrow> report_output result" where
  "output_json rep file ch =
     (case json_output (oc_rfc3339 ch) rep of
        None \<Rightarrow> Inl JsonMarshalFailed
      | Some s \<Rightarrow>
          if file = [] then Inr (JsonOutput Stdout s)
          else if oc_write_file ch file then Inr (JsonOutput (File file) s)
          else Inl (WriteFailed file))"

text \<open>
  \<open>outputCSV\<close>: the header and then each record go through \<open>writer.Write\<close>; the
  first one that fails ends the writer with its error. The deferred \<open>Flush\<close> drops
  its error.
\<close>

definition output_csv :: "report \<Rightarrow> string \<Rightarrow> output_choices \<Rightarrow> report_output result" where
  "output_csv rep file ch =
     (case open_output ch file of
        Inl e \<Rightarrow> Inl e
      | Inr out \<Rightarrow>
          (let rows = csv_output (report_summary rep) (oc_contributors ch) (oc_repositories ch) in
           case oc_csv_fail ch of
             Some i \<Rightarrow> if i < length rows then Inl (WriteFailed (sink_name out)) else Inr (CsvOutput out rows)
           | None \<Rightarrow> Inr (CsvOutput out rows)))"

text \<open>\<open>outputText\<close>: every \<open>fmt.Fprintf\<close> drops its error.\<close>

definition output_text :: "report \<Rightarrow> string \<Rightarrow> output_choices \<Rightarrow> report_output result" where
  "output_text rep file ch =
     (case open_output ch file of
        Inl e \<Rightarrow> Inl e
      | Inr out \<Rightarrow> Inr (TextOutput out (text_output rep (oc_date ch) (oc_contributors ch) (oc_repositories ch))))"

definition output_report :: "report \<Rightarrow> string \<Rightarrow> string \<Rightarrow> output_choices \<Rightarrow> report_output result" where
  "output_report rep file fmt ch =
     (if fmt = ''json'' then output_json rep file ch
      else if fmt = ''csv'' then output_csv rep file ch
      else if fmt = ''text'' then output_text rep file ch
      else Inl (UnsupportedFormat fmt))"

text \<open>
  What the CSV rows should be: one record per contributor and per repository of that
  contributor, each once.
\<close>

definition csv_rows_spec :: "summary \<Rightarrow> string list multiset" where
  "csv_rows_spec summ =
     (\<Sum>k \<in> dom summ. \<Sum>rn \<in> dom (cs_repositories (summary_at summ k)).
        {#csv_record (summary_at summ k) rn (repo_stats_at (summary_at summ k) rn)#})"

lemmas output_defs [model_defs] =
  fmt_int_def csv_header_def csv_record_def csv_rows_def csv_output_def top_repositories_def
  repo_line_def text_block_def text_output_def sink_name_def open_output_def output_json_def
  output_csv_def output_text_def output_report_def


section \<open>Lemmas\<close>

lemma contributor_rows_mset:
  assumes "enumerates (cs_repositories st) rns"
  shows "mset (List.map_filter (\<lambda>rn. map_option (csv_record st rn) (cs_repositories st rn)) rns)
         = (\<Sum>rn \<in> dom (cs_repositories st). {#csv_record st rn (repo_stats_at st rn)#})"
proof -
  from assms have d: "distinct rns" and s: "set rns = dom (cs_repositories st)"
    by (simp_all add: enumerates_def)
  show ?thesis
    unfolding mset_map_filter_distinct [OF d] s
    by (rule sum.cong) (auto simp: repo_stats_at_def)
qed

lemma csv_rows_mset:
  assumes "csv_choices_ok summ ks order"
  shows "mset (csv_rows summ ks order) = csv_rows_spec summ"
proof -
  from assms have d: "distinct ks" and s: "set ks = dom summ"
    and o: "\<forall>k \<in> set ks. enumerates (cs_repositories (summary_at summ k)) (order k)"
    by (simp_all add: csv_choices_ok_def enumerates_def)
  have "mset (csv_rows summ ks order)
        = (\<Sum>k \<in> set ks. mset (List.map_filter (\<lambda>rn. map_option (csv_record (summary_at summ k) rn)
                                   (cs_repositories (summary_at summ k) rn)) (order k)))"
    by (simp add: csv_rows_def mset_concat sum_list_distinct_conv_sum_set [OF d] comp_def Let_def)
  also have "\<dots> = csv_rows_spec summ"
    unfolding csv_rows_spec_def s [symmetric]
    by (rule sum.cong) (simp_all add: contributor_rows_mset o)
  finally show ?thesis .
qed

lemma top_repositories_heaviest:
  assumes "enumerates m rns" and "by_weight_desc w rns"
  shows "length (top_repositories rns) = min 5 (card (dom m))
         \<and> set (top_repositories rns) \<subseteq> dom m
         \<and> (\<forall>a \<in> set (top_repositories rns). \<forall>b \<in> dom m - set (top_repositories rns).
              sint (w b) \<le> sint (w a))"
proof -
  from assms have d: "distinct rns" and s: "set rns = dom m"
    and srt: "sorted_wrt (\<lambda>a b. sint (w b) \<le> sint (w a)) (take 5 rns @ drop 5 rns)"
    by (simp_all add: enumerates_def by_weight_desc_def)
  have len: "length rns = card (dom m)" using d s by (metis distinct_card)
  have rest: "dom m - set (take 5 rns) = set (drop 5 rns)"
  proof -
    have u: "set rns = set (take 5 rns) \<union> set (drop 5 rns)" by (metis append_take_drop_id set_append)
    have "distinct (take 5 rns @ drop 5 rns)" using d by simp
    then have "set (take 5 rns) \<inter> set (drop 5 rns) = {}" by (simp only: distinct_append)
    with u s show ?thesis by blast
  qed
  have "\<forall>a \<in> set (take 5 rns). \<forall>b \<in> set (drop 5 rns). sint (w b) \<le> sint (w a)"
    using srt unfolding sorted_wrt_append by blast
  moreover have "set (take 5 rns) \<subseteq> dom m" using s set_take_subset by metis
  ultimately show ?thesis using rest len
    by (simp add: top_repositories_def min.commute)
qed

section \<open>Fixtures\<close>

text \<open>
  A contributor with two repositories, and two contributors whose sort key wraps:
  \<open>2^62 + 2^62\<close> additions and deletions is \<open>-2^63\<close> as a Go \<open>int\<close>.
\<close>

abbreviation ann_stats :: contributor_stats where
  "ann_stats \<equiv>
     \<lparr>cs_name = ''Ann'', cs_email = ''ann@example.com'', cs_login = ''ann'', total_commits = 2,
      total_additions = 10, total_deletions = 5,
      cs_repositories = [''o/a'' \<mapsto> \<lparr>rs_commits = 1, rs_additions = 4, rs_deletions = 1\<rparr>,
                         ''o/b'' \<mapsto> \<lparr>rs_commits = 1, rs_additions = 6, rs_deletions = 4\<rparr>]\<rparr>"

abbreviation big_stats :: contributor_stats where
  "big_stats \<equiv>
     \<lparr>cs_name = ''Big'', cs_email = [], cs_login = ''big'', total_commits = 2,
      total_additions = 0x4000000000000000, total_deletions = 0x4000000000000000,
      cs_repositories = Map.empty\<rparr>"

abbreviation small_stats :: contributor_stats where
  "small_stats \<equiv>
     \<lparr>cs_name = ''Small'', cs_email = [], cs_login = ''small'', total_commits = 1,
      total_additions = 1, total_deletions = 0, cs_repositories = Map.empty\<rparr>"

text \<open>Writer choices with an empty summary order, on a file system that accepts
  every file or none, and the first CSV write that fails.\<close>

abbreviation fs_choices :: "bool \<Rightarrow> nat option \<Rightarrow> output_choices" where
  "fs_choices ok fail \<equiv>
     \<lparr>oc_contributors = [], oc_repositories = (\<lambda>_. []), oc_date = (\<lambda>_. []),
      oc_rfc3339 = (\<lambda>_. Some ''t''), oc_create = (\<lambda>_. ok), oc_write_file = (\<lambda>_. ok),
      oc_csv_fail = fail\<rparr>"

lemma ann_choices_ok:
  "csv_choices_ok [''ann'' \<mapsto> ann_stats] [''ann''] (\<lambda>_. [''o/b'', ''o/a''])
   \<and> text_choices_ok [''ann'' \<mapsto> ann_stats] [''ann''] (\<lambda>_. [''o/b'', ''o/a''])"
  by (simp add: csv_choices_ok_def text_choices_ok_def enumerates_def by_weight_desc_def
                summary_at_def repo_stats_at_def repo_weight_def insert_commute)

section \<open>Properties of the output writers\<close>

text \<open>
  C28 (error): \<open>OutputReport\<close> fails exactly in these cases, with these errors: a
  format other than \<open>json\<close>, \<open>csv\<close> and \<open>text\<close> (the unsupported-format error
  naming it); \<open>json\<close> when \<open>json.MarshalIndent\<close> fails on a date, or when it
  succeeds and \<open>os.WriteFile\<close> fails on the output file; \<open>csv\<close> and \<open>text\<close>
  when \<open>os.Create\<close> fails on the output file; and \<open>csv\<close> when the output is open
  and one of the writes of the header and the records fails, with the error naming the
  file or standard output. Writing to standard output never fails otherwise, and the
  text writer never fails once its output is open.
\<close>

theorem output_report_error:
  "(output_report rep file fmt ch = Inl e)
   = ((fmt \<notin> {''json'', ''csv'', ''text''} \<and> e = UnsupportedFormat fmt)
      \<or> (fmt = ''json'' \<and> json_output (oc_rfc3339 ch) rep = None \<and> e = JsonMarshalFailed)
      \<or> (fmt = ''json'' \<and> json_output (oc_rfc3339 ch) rep \<noteq> None \<and> file \<noteq> []
         \<and> \<not> oc_write_file ch file \<and> e = WriteFailed file)
      \<or> (fmt \<in> {''csv'', ''text''} \<and> file \<noteq> [] \<and> \<not> oc_create ch file \<and> e = CreateFailed file)
      \<or> (fmt = ''csv'' \<and> (file = [] \<or> oc_create ch file)
         \<and> (\<exists>i. oc_csv_fail ch = Some i
               \<and> i < length (csv_output (report_summary rep) (oc_contributors ch) (oc_repositories ch)))
         \<and> e = WriteFailed (if file = [] then ''/dev/stdout'' else file)))"
  by (auto simp: output_report_def output_json_def output_csv_def output_text_def open_output_def
                 sink_name_def Let_def split: option.splits if_splits)

theorem output_report_error_witness:
  "output_report json_demo_report ''out.csv'' ''csv'' (fs_choices False None) = Inl (CreateFailed ''out.csv'')
   \<and> output_report json_demo_report [] ''csv'' (fs_choices True (Some 0)) = Inl (WriteFailed ''/dev/stdout'')
   \<and> output_report json_demo_report ''out.json'' ''json'' (fs_choices False None) = Inl (WriteFailed ''out.json'')"
proof (intro conjI)
  show "output_report json_demo_report ''out.csv'' ''csv'' (fs_choices False None) = Inl (CreateFailed ''out.csv'')"
    using output_report_error [of json_demo_report "''out.csv''" "''csv''" "fs_choices False None"] by simp
  show "output_report json_demo_report [] ''csv'' (fs_choices True (Some 0)) = Inl (WriteFailed ''/dev/stdout'')"
    using output_report_error [of json_demo_report "[]" "''csv''" "fs_choices True (Some 0)"]
    by (simp add: csv_output_def)
  have "json_output (\<lambda>_. Some ''t'') json_demo_report \<noteq> None" by (rule json_output_total) simp
  then show "output_report json_demo_report ''out.json'' ''json'' (fs_choices False None) = Inl (WriteFailed ''out.json'')"
    using output_report_error [of json_demo_report "''out.json''" "''json''" "fs_choices False None"] by simp
qed

text \<open>
  C29 (functional): when \<open>OutputReport\<close> succeeds, what it wrote and where: the
  output goes to the file \<open>outputFile\<close> names, or to standard output when it is empty;
  \<open>json\<close> writes the \<open>MarshalIndent\<close> text, \<open>csv\<close> the header and the records
  (every write of them having succeeded), \<open>text\<close> the text report; and it succeeds
  in each of these cases.
\<close>

theorem output_report_ok:
  "(output_report rep file fmt ch = Inr out)
   = (let snk = (if file = [] then Stdout else File file);
          rows = csv_output (report_summary rep) (oc_contributors ch) (oc_repositories ch) in
        (fmt = ''json'' \<and> (file = [] \<or> oc_write_file ch file)
           \<and> (\<exists>s. json_output (oc_rfc3339 ch) rep = Some s \<and> out = JsonOutput snk s))
      \<or> (fmt = ''csv'' \<and> (file = [] \<or> oc_create ch file)
           \<and> (\<forall>i. oc_csv_fail ch = Some i \<longrightarrow> length rows \<le> i) \<and> out = CsvOutput snk rows)
      \<or> (fmt = ''text'' \<and> (file = [] \<or> oc_create ch file)
           \<and> out = TextOutput snk (text_output rep (oc_date ch) (oc_contributors ch) (oc_repositories ch))))"
  by (auto simp: output_report_def output_json_def output_csv_def output_text_def open_output_def
                 Let_def not_less split: option.splits if_splits)

theorem output_report_ok_witness:
  "output_report json_demo_report ''r.txt'' ''text'' (fs_choices True None)
     = Inr (TextOutput (File ''r.txt'') (text_output json_demo_report (\<lambda>_. []) [] (\<lambda>_. [])))
   \<and> output_report json_demo_report [] ''csv'' (fs_choices False None)
     = Inr (CsvOutput Stdout (csv_output (report_summary json_demo_report) [] (\<lambda>_. [])))"
proof (intro conjI)
  show "output_report json_demo_report ''r.txt'' ''text'' (fs_choices True None)
     = Inr (TextOutput (File ''r.txt'') (text_output json_demo_report (\<lambda>_. []) [] (\<lambda>_. [])))"
    using output_report_ok [of json_demo_report "''r.txt''" "''text''" "fs_choices True None"] by simp
  show "output_report json_demo_report [] ''csv'' (fs_choices False None)
     = Inr (CsvOutput Stdout (csv_output (report_summary json_demo_report) [] (\<lambda>_. [])))"
    using output_report_ok [of json_demo_report "[]" "''csv''" "fs_choices False None"] by simp
qed

text \<open>
  C30 (refinement): whatever order the runtime iterates the maps in, the CSV writer
  writes one record per contributor and per repository of that contributor, each
  exactly once, with the contributor's name, login and email, the repository and its
  three counters.
\<close>

theorem csv_rows_complete:
  assumes "csv_choices_ok summ ks order"
  shows "mset (csv_rows summ ks order) = csv_rows_spec summ"
  using assms by (rule csv_rows_mset)

theorem csv_rows_complete_witness:
  "mset (csv_rows [''ann'' \<mapsto> ann_stats] [''ann''] (\<lambda>_. [''o/b'', ''o/a'']))
   = csv_rows_spec [''ann'' \<mapsto> ann_stats]"
  using ann_choices_ok by (blast intro: csv_rows_complete)

text \<open>
  C31 (bounds): the writers sort contributors by \<open>TotalAdditions + TotalDeletions\<close>
  computed as a Go \<open>int\<close>, which wraps: a contributor with \<open>2^62\<close> additions and
  \<open>2^62\<close> deletions is listed after one with a single addition, in every order
  \<open>sort.Slice\<close> may leave.
\<close>

theorem contributor_order_wraps:
  "sint (total_additions small_stats) + sint (total_deletions small_stats)
     < sint (total_additions big_stats) + sint (total_deletions big_stats)
   \<and> (csv_choices_ok [''big'' \<mapsto> big_stats, ''small'' \<mapsto> small_stats] ks order
      \<longrightarrow> ks = [''small'', ''big''])"
proof (intro conjI impI)
  show "sint (total_additions small_stats) + sint (total_deletions small_stats)
     < sint (total_additions big_stats) + sint (total_deletions big_stats)" by simp
  assume ok: "csv_choices_ok [''big'' \<mapsto> big_stats, ''small'' \<mapsto> small_stats] ks order"
  then have "distinct ks" "set ks = {''small'', ''big''}"
    by (simp_all add: csv_choices_ok_def enumerates_def)
  then have "ks = [''small'', ''big''] \<or> ks = [''big'', ''small'']" by (rule distinct_two) simp
  moreover have "ks \<noteq> [''big'', ''small'']"
    using ok by (auto simp: csv_choices_ok_def by_weight_desc_def summary_at_def contribution_weight_def)
  ultimately show "ks = [''small'', ''big'']" by blast
qed

theorem contributor_order_wraps_witness:
  "csv_choices_ok [''big'' \<mapsto> big_stats, ''small'' \<mapsto> small_stats] [''small'', ''big''] (\<lambda>_. [])
   \<and> \<not> csv_choices_ok [''big'' \<mapsto> big_stats, ''small'' \<mapsto> small_stats] [''big'', ''small''] (\<lambda>_. [])"
proof -
  have ok: "csv_choices_ok [''big'' \<mapsto> big_stats, ''small'' \<mapsto> small_stats] [''small'', ''big''] (\<lambda>_. [])"
    by (simp add: csv_choices_ok_def enumerates_def by_weight_desc_def summary_at_def
                  contribution_weight_def insert_commute)
  have "\<not> csv_choices_ok [''big'' \<mapsto> big_stats, ''small'' \<mapsto> small_stats] [''big'', ''small''] (\<lambda>_. [])"
    using contributor_order_wraps [of "[''big'', ''small'']" "\<lambda>_. []"] by auto
  with ok show ?thesis by blast
qed

text \<open>
  The text writer on the report of \<^verbatim>\<open>TestOutputText\<close> (target
  \<open>testuser\<close>, no repositories, no contributors) writes the header the test builds by
  hand, followed by the empty contributor summary.
\<close>

theorem text_output_scenario:
  "text_output \<lparr>report_target = ''testuser'', report_period = \<lparr>period_since = 0, period_until = 30\<rparr>,
                report_repositories = [], report_summary = Map.empty\<rparr>
     (\<lambda>t. if t = 0 then ''2024-01-01'' else ''2024-01-31'') [] order
   = ''GitHub Activity Report for: testuser'' @ nl @ ''Period: 2024-01-01 to 2024-01-31'' @ nl
     @ ''Repositories analyzed: 0'' @ nl @ nl
     @ ''CONTRIBUTOR SUMMARY'' @ nl @ ''=================='' @ nl @ nl"
  by (simp add: text_output_def fmt_int_zero)

end
