(* ===== verification/CLI.thy ===== *)
theory CLI
  imports Report Output
begin

text \<open>
  The command-line entry point \<open>main\<close> of \<^verbatim>\<open>src/main.go\<close> (lines 15--77): the flags
  \<open>-target\<close>, \<open>-token\<close>, \<open>-since\<close>, \<open>-until\<close>, \<open>-output\<close> and \<open>-format\<close>; the usage
  exit on a missing target; the token from the flag or \<open>GITHUB_TOKEN\<close>; the dates parsed
  or defaulted to thirty days ago and now; then \<open>GenerateReport\<close> and \<open>OutputReport\<close>,
  each fatal on error. The run is a relation between the flags, the environment and
  the exit with the output written: the environment supplies what the standard library
  and the operating system answer (the environment variable, the clock, \<open>time.Parse\<close>,
  the file system the writers create and write files in, and the provider a client
  built with the token talks to).
\<close>

section \<open>Flags and environment\<close>

record cli_flags =
  fl_target :: string
  fl_token :: string
  fl_since :: string
  fl_until :: string
  fl_output :: string
  fl_format :: string

text \<open>The defaults of the \<open>flag.String\<close> declarations.\<close>

definition default_flags :: cli_flags where
  "default_flags =
     \<lparr>fl_target = [], fl_token = [], fl_since = [], fl_until = [], fl_output = [],
      fl_format = ''text''\<rparr>"

record cli_env =
  env_github_token :: string
  env_now :: time
  env_month_ago :: time
  env_parse_date :: "string \<Rightarrow> time option"
  env_api :: "gh_transport \<Rightarrow> github_api"
  env_format_date :: "time \<Rightarrow> string"
  env_rfc3339 :: "time \<Rightarrow> string option"
  env_create :: "string \<Rightarrow> bool"
  env_write_file :: "string \<Rightarrow> bool"
  env_csv_fail :: "nat option"

datatype cli_exit = ExitOk | ExitUsage | ExitFatal string

definition resolve_token :: "cli_flags \<Rightarrow> cli_env \<Rightarrow> string" where
  "resolve_token fl env = (if fl_token fl = [] then env_github_token env else fl_token fl)"

definition resolve_date :: "string \<Rightarrow> time \<Rightarrow> (string \<Rightarrow> time option) \<Rightarrow> time option" where
  "resolve_date s dflt parse = (if s \<noteq> [] then parse s else Some dflt)"

abbreviation cli_since :: "cli_env \<Rightarrow> cli_flags \<Rightarrow> time option" where
  "cli_since env fl \<equiv> resolve_date (fl_since fl) (env_month_ago env) (env_parse_date env)"

abbreviation cli_until :: "cli_env \<Rightarrow> cli_flags \<Rightarrow> time option" where
  "cli_until env fl \<equiv> resolve_date (fl_until fl) (env_now env) (env_parse_date env)"

text \<open>The time formatting of the runtime and the answers of the file system, and the
  orders the runtime may pick for the format the writer dispatches to.\<close>

definition env_choices :: "cli_env \<Rightarrow> output_choices \<Rightarrow> bool" where
  "env_choices env ch \<longleftrightarrow>
     oc_date ch = env_format_date env \<and> oc_rfc3339 ch = env_rfc3339 env
     \<and> oc_create ch = env_create env \<and> oc_write_file ch = env_write_file env
     \<and> oc_csv_fail ch = env_csv_fail env"

definition output_choices_ok :: "string \<Rightarrow> summary \<Rightarrow> output_choices \<Rightarrow> bool" where
  "output_choices_ok fmt summ ch \<longleftrightarrow>
     (fmt = ''csv'' \<longrightarrow> csv_choices_ok summ (oc_contributors ch) (oc_repositories ch))
     \<and> (fmt = ''text'' \<longrightarrow> text_choices_ok summ (oc_contributors ch) (oc_repositories ch))"

section \<open>main\<close>

inductive cli_run :: "cli_env \<Rightarrow> cli_flags \<Rightarrow> cli_exit \<times> report_output option \<Rightarrow> bool"
  for env fl where
  no_target: "fl_target fl = [] \<Longrightarrow> cli_run env fl (ExitUsage, None)"
| bad_since: "fl_target fl \<noteq> [] \<Longrightarrow> cli_since env fl = None \<Longrightarrow>
              cli_run env fl (ExitFatal ''Invalid since date format'', None)"
| bad_until: "fl_target fl \<noteq> [] \<Longrightarrow> cli_since env fl = Some since \<Longrightarrow> cli_until env fl = None \<Longrightarrow>
              cli_run env fl (ExitFatal ''Invalid until date format'', None)"
| report_failed: "fl_target fl \<noteq> [] \<Longrightarrow> cli_since env fl = Some since \<Longrightarrow> cli_until env fl = Some until \<Longrightarrow>
              generate_report (reporter_client (new_reporter (env_api env (new_github_client (resolve_token fl env)))))
                (fl_target fl) since until (Inl e) \<Longrightarrow>
              cli_run env fl (ExitFatal ''Error generating report'', None)"
| output_failed: "fl_target fl \<noteq> [] \<Longrightarrow> cli_since env fl = Some since \<Longrightarrow> cli_until env fl = Some until \<Longrightarrow>
              generate_report (reporter_client (new_reporter (env_api env (new_github_client (resolve_token fl env)))))
                (fl_target fl) since until (Inr rep) \<Longrightarrow>
              env_choices env ch \<Longrightarrow> output_report rep (fl_output fl) (fl_format fl) ch = Inl e \<Longrightarrow>
              cli_run env fl (ExitFatal ''Error outputting report'', None)"
| finished: "fl_target fl \<noteq> [] \<Longrightarrow> cli_since env fl = Some since \<Longrightarrow> cli_until env fl = Some until \<Longrightarrow>
              generate_report (reporter_client (new_reporter (env_api env (new_github_client (resolve_token fl env)))))
                (fl_target fl) since until (Inr rep) \<Longrightarrow>
              env_choices env ch \<Longrightarrow> output_choices_ok (fl_format fl) (report_summary rep) ch \<Longrightarrow>
              output_report rep (fl_output fl) (fl_format fl) ch = Inr out \<Longrightarrow>
              cli_run env fl (ExitOk, Some out)"

inductive_cases cli_run_cases: "cli_run env fl r"

section \<open>The scenario environment\<close>

text \<open>
  The provider \<open>demo_api\<close> whatever the token, today as time 1, the two dates of the
  flags parsed as times 0 and 1, and those times formatted back.
\<close>

abbreviation demo_env :: cli_env where
  "demo_env \<equiv>
     \<lparr>env_github_token = [], env_now = 1, env_month_ago = 0,
      env_parse_date = (\<lambda>s. if s = ''2024-01-01'' then Some 0 else if s = ''2024-01-02'' then Some 1 else None),
      env_api = (\<lambda>_. demo_api),
      env_format_date = (\<lambda>t. if t = 0 then ''2024-01-01'' else ''2024-01-02''),
      env_rfc3339 = (\<lambda>t. if t = 0 then Some ''2024-01-01T00:00:00Z'' else Some ''2024-01-02T00:00:00Z''),
      env_create = (\<lambda>_. True), env_write_file = (\<lambda>_. True), env_csv_fail = None\<rparr>"

abbreviation demo_flags :: "string \<Rightarrow> cli_flags" where
  "demo_flags fmt \<equiv>
     default_flags\<lparr>fl_target := ''owner'', fl_since := ''2024-01-01'', fl_until := ''2024-01-02'',
                   fl_format := fmt\<rparr>"

text \<open>The writer's choices in that environment, with the orders of an empty summary.\<close>

abbreviation demo_choices :: output_choices where
  "demo_choices \<equiv>
     \<lparr>oc_contributors = [], oc_repositories = (\<lambda>_. []), oc_date = env_format_date demo_env,
      oc_rfc3339 = env_rfc3339 demo_env, oc_create = env_create demo_env,
      oc_write_file = env_write_file demo_env, oc_csv_fail = env_csv_fail demo_env\<rparr>"

section \<open>Lemmas\<close>

lemma cli_run_no_target:
  "cli_run env fl r \<Longrightarrow> fl_target fl = [] \<Longrightarrow> r = (ExitUsage, None)"
  by (elim cli_run_cases) simp_all

lemma output_report_unsupported:
  "fmt \<notin> {''json'', ''csv'', ''text''} \<Longrightarrow> output_report rep file fmt ch = Inl (UnsupportedFormat fmt)"
  by (simp add: output_report_def)

lemma cli_run_unsupported:
  assumes "cli_run env fl r" and "fl_format fl \<notin> {''json'', ''csv'', ''text''}"
  shows "fst r \<noteq> ExitOk
         \<and> (fst r = ExitFatal ''Error outputting report'' \<longrightarrow>
              (\<exists>since until rep. cli_since env fl = Some since \<and> cli_until env fl = Some until
                 \<and> generate_report (env_api env (new_github_client (resolve_token fl env))) (fl_target fl) since until (Inr rep)))"
  using assms(1)
proof (cases rule: cli_run.cases)
  case (finished since until rep ch out)
  with output_report_unsupported [OF assms(2)] show ?thesis by simp
qed auto

text \<open>The client gets the \<open>-token\<close> flag, else \<open>GITHUB_TOKEN\<close>, else no token.\<close>

lemma cli_transport:
  "new_github_client (resolve_token fl env) =
     (if fl_token fl \<noteq> [] then OAuth2 (fl_token fl)
      else if env_github_token env \<noteq> [] then OAuth2 (env_github_token env) else Anonymous)"
  by (simp add: new_github_client_def resolve_token_def)

lemma demo_cli_dates:
  "cli_since demo_env (demo_flags fmt) = Some 0 \<and> cli_until demo_env (demo_flags fmt) = Some 1"
  by (simp add: resolve_date_def default_flags_def)

lemma demo_cli_report:
  "generate_report (env_api demo_env (new_github_client (resolve_token (demo_flags fmt) demo_env))) ''owner'' 0 1
     (Inr (report_of ''owner'' 0 1 [demo_processed1]))"
proof -
  obtain res where g: "generate_report demo_api ''owner'' 0 1 res" using demo_report_exists by blast
  with demo_report_unique [OF g] show ?thesis by simp
qed

section \<open>Properties of the command line\<close>

text \<open>
  C33 (error): without \<open>-target\<close> the program only prints its usage and exits; with a
  format other than \<open>json\<close>, \<open>csv\<close> and \<open>text\<close> it never succeeds, and it reports the
  unsupported format only after the whole report has been fetched from the provider.
\<close>

theorem cli_errors:
  assumes "cli_run env fl r"
  shows "(fl_target fl = [] \<longrightarrow> r = (ExitUsage, None))
         \<and> (fl_format fl \<notin> {''json'', ''csv'', ''text''} \<longrightarrow>
              fst r \<noteq> ExitOk
              \<and> (fst r = ExitFatal ''Error outputting report'' \<longrightarrow>
                   (\<exists>since until rep. cli_since env fl = Some since \<and> cli_until env fl = Some until
                      \<and> generate_report (env_api env (new_github_client (resolve_token fl env))) (fl_target fl) since until (Inr rep))))"
  using cli_run_no_target [OF assms] cli_run_unsupported [OF assms] by blast

theorem cli_errors_witness:
  "cli_run demo_env (demo_flags ''xml'') (ExitFatal ''Error outputting report'', None)
   \<and> cli_run demo_env default_flags (ExitUsage, None)"
proof -
  have run: "cli_run demo_env (demo_flags ''xml'') (ExitFatal ''Error outputting report'', None)"
  proof (rule cli_run.output_failed)
    show "fl_target (demo_flags ''xml'') \<noteq> []" by (simp add: default_flags_def)
    show "cli_since demo_env (demo_flags ''xml'') = Some 0" using demo_cli_dates by blast
    show "cli_until demo_env (demo_flags ''xml'') = Some 1" using demo_cli_dates by blast
    show "generate_report (reporter_client (new_reporter
            (env_api demo_env (new_github_client (resolve_token (demo_flags ''xml'') demo_env)))))
            (fl_target (demo_flags ''xml'')) 0 1 (Inr (report_of ''owner'' 0 1 [demo_processed1]))"
      using demo_cli_report by simp
    show "env_choices demo_env demo_choices"
      by (simp add: env_choices_def)
    show "output_report (report_of ''owner'' 0 1 [demo_processed1]) (fl_output (demo_flags ''xml''))
            (fl_format (demo_flags ''xml'')) demo_choices
          = Inl (UnsupportedFormat ''xml'')"
      by (simp add: output_report_def)
  qed
  have usage: "cli_run demo_env default_flags (ExitUsage, None)"
    by (rule cli_run.no_target) (simp add: default_flags_def)
  have "fst (ExitFatal ''Error outputting report'', None :: report_output option) \<noteq> ExitOk"
    using cli_errors [OF run] by (simp add: default_flags_def)
  with run usage show ?thesis by blast
qed

text \<open>
  C34 (functional): the whole program on the scenario provider: with \<open>-target owner\<close>,
  the two dates and \<open>-format json\<close>, every run exits successfully and prints the JSON
  text of the one report of the scenario (the repository \<open>repo1\<close> with its \<open>main\<close>
  branch and one commit) on standard output, and such a run exists.
\<close>

theorem cli_scenario:
  "(\<exists>r. cli_run demo_env (demo_flags ''json'') r)
   \<and> (\<forall>r. cli_run demo_env (demo_flags ''json'') r
          \<longrightarrow> (\<exists>s. r = (ExitOk, Some (JsonOutput Stdout s))
                   \<and> json_output (env_rfc3339 demo_env) (report_of ''owner'' 0 1 [demo_processed1]) = Some s))"
proof (intro conjI allI impI)
  obtain s where s: "json_output (env_rfc3339 demo_env) (report_of ''owner'' 0 1 [demo_processed1]) = Some s"
    using json_output_total [of "env_rfc3339 demo_env"] by fastforce
  let ?ch = demo_choices
  have "cli_run demo_env (demo_flags ''json'') (ExitOk, Some (JsonOutput Stdout s))"
  proof (rule cli_run.finished)
    show "fl_target (demo_flags ''json'') \<noteq> []" by (simp add: default_flags_def)
    show "cli_since demo_env (demo_flags ''json'') = Some 0" using demo_cli_dates by blast
    show "cli_until demo_env (demo_flags ''json'') = Some 1" using demo_cli_dates by blast
    show "generate_report (reporter_client (new_reporter
            (env_api demo_env (new_github_client (resolve_token (demo_flags ''json'') demo_env)))))
            (fl_target (demo_flags ''json'')) 0 1 (Inr (report_of ''owner'' 0 1 [demo_processed1]))"
      using demo_cli_report by simp
    show "env_choices demo_env ?ch" by (simp add: env_choices_def)
    show "output_choices_ok (fl_format (demo_flags ''json''))
            (report_summary (report_of ''owner'' 0 1 [demo_processed1])) ?ch"
      by (simp add: output_choices_ok_def)
    show "output_report (report_of ''owner'' 0 1 [demo_processed1]) (fl_output (demo_flags ''json''))
            (fl_format (demo_flags ''json'')) ?ch = Inr (JsonOutput Stdout s)"
      using s by (simp add: output_report_def output_json_def default_flags_def)
  qed
  then show "\<exists>r. cli_run demo_env (demo_flags ''json'') r" by blast
next
  fix r assume "cli_run demo_env (demo_flags ''json'') r"
  then show "\<exists>s. r = (ExitOk, Some (JsonOutput Stdout s))
               \<and> json_output (env_rfc3339 demo_env) (report_of ''owner'' 0 1 [demo_processed1]) = Some s"
  proof (cases rule: cli_run.cases)
    case (report_failed since until e)
    with demo_cli_dates have "generate_report demo_api ''owner'' 0 1 (Inl e)"
      by (simp add: default_flags_def resolve_token_def)
    then show ?thesis using demo_report_unique by blast
  next
    case (output_failed since until rep ch e)
    with demo_cli_dates have "generate_report demo_api ''owner'' 0 1 (Inr rep)"
      by (simp add: default_flags_def resolve_token_def)
    then have "rep = report_of ''owner'' 0 1 [demo_processed1]" using demo_report_unique by blast
    moreover have "oc_rfc3339 ch = env_rfc3339 demo_env" using output_failed by (simp add: env_choices_def)
    then have "json_output (oc_rfc3339 ch) rep \<noteq> None"
      using json_output_total [of "oc_rfc3339 ch" rep] by simp
    ultimately show ?thesis using output_failed
      by (auto simp: output_report_def output_json_def default_flags_def split: option.splits)
  next
    case (finished since until rep ch out)
    with demo_cli_dates have "generate_report demo_api ''owner'' 0 1 (Inr rep)"
      by (simp add: default_flags_def resolve_token_def)
    then have "rep = report_of ''owner'' 0 1 [demo_processed1]" using demo_report_unique by blast
    with finished show ?thesis
      by (auto simp: output_report_def output_json_def default_flags_def env_choices_def split: option.splits)
  qed (simp_all add: default_flags_def resolve_date_def)
qed

theorem cli_scenario_witness:
  "\<exists>s. cli_run demo_env (demo_flags ''json'') (ExitOk, Some (JsonOutput Stdout s))"
proof -
  obtain r where "cli_run demo_env (demo_flags ''json'') r" using cli_scenario by blast
  with cli_scenario show ?thesis by blast
qed

end
