(* ===== verification/ReporterTests.thy ===== *)
theory ReporterTests
  imports BranchSelect Aggregator Output
begin

text \<open>
  The unit tests of the reporter (\<^verbatim>\<open>reporter_test.go\<close>, staged in
  \<^verbatim>\<open>src/internal/models/types.go\<close>, lines 75--310), run against the model. Each test
  is a function returning the messages its \<open>t.Error\<close> and \<open>t.Errorf\<close> calls would
  print, in order; the test passes when the list is empty. A test's table of cases is a
  list of records. \<open>time.Now()\<close>, which only fills the \<open>Date\<close> of the test
  commits, is a parameter. \<open>TestOutputJSON\<close> runs the JSON encoding of theory
  \<open>Json\<close>, with the RFC 3339 formatter of \<open>time.Time\<close> a parameter.
\<close>

section \<open>strings.Contains\<close>

fun str_contains :: "string \<Rightarrow> string \<Rightarrow> bool" where
  "str_contains sub [] = (sub = [])"
| "str_contains sub (c # cs) = (take (length sub) (c # cs) = sub \<or> str_contains sub cs)"

section \<open>TestGetAuthorKey\<close>

record author_key_case =
  akc_name :: string
  akc_author :: author
  akc_expected :: string

definition author_key_cases :: "author_key_case list" where
  "author_key_cases =
     [\<lparr>akc_name = ''with login'',
       akc_author = \<lparr>author_name = ''John Doe'', author_email = ''john@example.com'', author_login = ''johndoe''\<rparr>,
       akc_expected = ''johndoe''\<rparr>,
      \<lparr>akc_name = ''without login, with email'',
       akc_author = \<lparr>author_name = ''Jane Doe'', author_email = ''jane@example.com'', author_login = []\<rparr>,
       akc_expected = ''jane@example.com''\<rparr>,
      \<lparr>akc_name = ''only name'',
       akc_author = \<lparr>author_name = ''Bob Smith'', author_email = [], author_login = []\<rparr>,
       akc_expected = ''Bob Smith''\<rparr>]"

definition run_author_key_case :: "author_key_case \<Rightarrow> string list" where
  "run_author_key_case tt =
     (let result = get_author_key (akc_author tt) in
      if result \<noteq> akc_expected tt then [''Expected '' @ akc_expected tt @ '', got '' @ result] else [])"

definition test_get_author_key :: "string list" where
  "test_get_author_key = concat (map run_author_key_case author_key_cases)"

section \<open>TestSelectBranchesToProcess\<close>

definition select_test_branches :: "branch list" where
  "select_test_branches =
     map (\<lambda>n. \<lparr>branch_name = n, branch_sha = [], branch_commits = []\<rparr>)
       [''feature/test'', ''main'', ''develop'', ''master'', ''feature/another'']"

definition test_select_branches :: "string list" where
  "test_select_branches =
     (let selected = select_branches_to_process select_test_branches ''main'';
          expected = (\<lambda>n. n \<in> {''main'', ''develop'', ''master''}) in
      (if length selected = 0 then [''Should select at least one branch''] else [])
      @ concat (map (\<lambda>b. if \<not> expected (branch_name b)
                          then [''Unexpected branch selected: '' @ branch_name b] else []) selected)
      @ (if \<not> list_ex (\<lambda>b. branch_name b = ''main'') selected
         then [''Default branch 'main' should be included''] else []))"

section \<open>TestGenerateSummary\<close>

definition summary_test_repos :: "time \<Rightarrow> repository list" where
  "summary_test_repos now =
     [\<lparr>repo_name = ''repo1'', repo_full_name = ''owner/repo1'', repo_url = [], repo_default_branch = [],
       repo_branches =
         [\<lparr>branch_name = ''main'', branch_sha = [],
           branch_commits =
             [\<lparr>commit_sha = ''abc123'', commit_message = ''Test commit'',
               commit_author = \<lparr>author_name = ''John Doe'', author_email = ''john@example.com'',
                                author_login = ''johndoe''\<rparr>,
               commit_date = now,
               commit_stats = \<lparr>stat_additions = 10, stat_deletions = 5, stat_total = 15\<rparr>\<rparr>,
              \<lparr>commit_sha = ''def456'', commit_message = ''Another commit'',
               commit_author = \<lparr>author_name = ''John Doe'', author_email = ''john@example.com'',
                                author_login = ''johndoe''\<rparr>,
               commit_date = now,
               commit_stats = \<lparr>stat_additions = 20, stat_deletions = 3, stat_total = 23\<rparr>\<rparr>]\<rparr>]\<rparr>]"

text \<open>
  \<open>contributor, exists := summary["johndoe"]\<close> yields the zero value when the key is
  absent, and the test goes on checking it; likewise for the repository entry.
\<close>

definition test_generate_summary :: "time \<Rightarrow> string list" where
  "test_generate_summary now =
     (let summary = generate_summary (summary_test_repos now);
          contributor = summary_at summary ''johndoe'';
          repo_stats = repo_stats_at contributor ''owner/repo1'' in
      (if card (dom summary) \<noteq> 1
       then [''Expected 1 contributor, got '' @ fmt_int (of_nat (card (dom summary)))] else [])
      @ (if summary ''johndoe'' = None then [''Expected contributor 'johndoe' not found''] else [])
      @ (if total_commits contributor \<noteq> 2
         then [''Expected 2 total commits, got '' @ fmt_int (total_commits contributor)] else [])
      @ (if total_additions contributor \<noteq> 30
         then [''Expected 30 total additions, got '' @ fmt_int (total_additions contributor)] else [])
      @ (if total_deletions contributor \<noteq> 8
         then [''Expected 8 total deletions, got '' @ fmt_int (total_deletions contributor)] else [])
      @ (if cs_repositories contributor ''owner/repo1'' = None
         then [''Expected repository stats for 'owner/repo1' not found''] else [])
      @ (if rs_commits repo_stats \<noteq> 2
         then [''Expected 2 commits for repository, got '' @ fmt_int (rs_commits repo_stats)] else []))"

section \<open>TestOutputJSON\<close>

text \<open>
  The test's report has \<open>Repositories: []models.Repository{}\<close>, a non-\<open>nil\<close> empty
  slice that Go writes as \<open>[]\<close>; the model's report has no \<open>nil\<close> flag, so the
  model writes \<open>null\<close> there. The test does not look at that member. The dates are
  the Unix times of 2024-01-01 and 2024-01-31, midnight UTC. \<open>t.Fatalf\<close> ends the
  test with its one message.
\<close>

definition json_test_report :: report where
  "json_test_report =
     \<lparr>report_target = ''testuser'',
      report_period = \<lparr>period_since = 1704067200, period_until = 1706659200\<rparr>,
      report_repositories = [], report_summary = Map.empty\<rparr>"

definition test_output_json :: "(time \<Rightarrow> string option) \<Rightarrow> string list" where
  "test_output_json tf =
     (case json_output tf json_test_report of
        None \<Rightarrow> [''Failed to marshal JSON'']
      | Some result \<Rightarrow>
          (if \<not> str_contains ''testuser'' result then [''JSON output should contain target user''] else [])
          @ (if \<not> str_contains ''2024-01-01'' result then [''JSON output should contain since date''] else []))"

section \<open>TestOutputText\<close>

definition test_output_text :: "string list" where
  "test_output_text =
     (let output = ''GitHub Activity Report for: testuser'' @ nl
                   @ ''Period: 2024-01-01 to 2024-01-31'' @ nl
                   @ ''Repositories analyzed: 0'' @ nl @ nl in
      (if \<not> str_contains ''testuser'' output then [''Text output should contain target user''] else [])
      @ (if \<not> str_contains ''2024-01-01'' output then [''Text output should contain since date''] else [])
      @ (if \<not> str_contains ''2024-01-31'' output then [''Text output should contain until date''] else []))"

section \<open>The model passes the tests\<close>

lemma test_get_author_key_passes: "test_get_author_key = []"
  by (simp add: test_get_author_key_def author_key_cases_def run_author_key_case_def get_author_key_def)

lemma test_select_branches_passes: "test_select_branches = []"
  by (simp add: test_select_branches_def select_test_branches_def branch_select_defs)

lemma test_generate_summary_passes: "test_generate_summary now = []"
  by (simp add: test_generate_summary_def summary_test_repos_def aggregator_defs summary_at_def
                repo_stats_at_def Let_def)

lemma test_output_text_passes: "test_output_text = []"
  by code_simp

lemma test_output_json_passes:
  assumes "tf 1704067200 = Some ''2024-01-01T00:00:00Z''" and "tf 1706659200 = Some ''2024-01-31T00:00:00Z''"
  shows "test_output_json tf = []"
  using assms
  by (simp add: test_output_json_def json_test_report_def json_output_def json_report_def json_period_def
                json_slice_def json_map_def json_quote_def nl_indent_def json_escape_char_def Let_def
                numeral_2_eq_2)

end
