(* ===== verification/JsonDecode.thy ===== *)
theory JsonDecode
  imports Report Json "HOL-Library.Monad_Syntax"
begin

text \<open>
  A reader for the JSON that \<open>outputJSON\<close> writes, after the \<open>json\<close> struct tags of
  \<^verbatim>\<open>src/internal/models/types.go\<close>: each struct is an object with the members its tags
  name, a slice an array or \<open>null\<close> (which \<open>encoding/json\<close> decodes to a nil slice),
  a map an object, a time an RFC 3339 string read with a parser \<open>tp\<close>. It is the
  specification side of the round trip: what a consumer of the report recovers from
  the bytes. The program has no decoder, so nothing here is mapped to its code.
\<close>

section \<open>Decoders\<close>

definition dec_str :: "json \<Rightarrow> string option" where
  "dec_str j = (case j of JStr s \<Rightarrow> Some s | _ \<Rightarrow> None)"

definition dec_num :: "json \<Rightarrow> go_int option" where
  "dec_num j = (case j of JNum n \<Rightarrow> Some n | _ \<Rightarrow> None)"

definition dec_time :: "(string \<Rightarrow> time option) \<Rightarrow> json \<Rightarrow> time option" where
  "dec_time tp j = dec_str j \<bind> tp"

definition dec_obj :: "((string \<times> json) list \<Rightarrow> 'a option) \<Rightarrow> json \<Rightarrow> 'a option" where
  "dec_obj f j = (case j of JObj ms \<Rightarrow> f ms | _ \<Rightarrow> None)"

definition dec_field :: "(json \<Rightarrow> 'a option) \<Rightarrow> string \<Rightarrow> (string \<times> json) list \<Rightarrow> 'a option" where
  "dec_field f k ms = map_of ms k \<bind> f"

definition dec_list :: "(json \<Rightarrow> 'a option) \<Rightarrow> json \<Rightarrow> 'a list option" where
  "dec_list f j = (case j of JNull \<Rightarrow> Some [] | JArr vs \<Rightarrow> those (map f vs) | _ \<Rightarrow> None)"

definition dec_map :: "(json \<Rightarrow> 'v option) \<Rightarrow> json \<Rightarrow> (string \<rightharpoonup> 'v) option" where
  "dec_map f j =
     (case j of
        JObj ms \<Rightarrow> map_option map_of (those (map (\<lambda>(k, v). map_option (Pair k) (f v)) ms))
      | _ \<Rightarrow> None)"

definition dec_author :: "json \<Rightarrow> author option" where
  "dec_author = dec_obj (\<lambda>ms. do {
     n \<leftarrow> dec_field dec_str ''name'' ms;
     e \<leftarrow> dec_field dec_str ''email'' ms;
     l \<leftarrow> dec_field dec_str ''login'' ms;
     Some \<lparr>author_name = n, author_email = e, author_login = l\<rparr>
   })"

definition dec_commit_stats :: "json \<Rightarrow> commit_stats option" where
  "dec_commit_stats = dec_obj (\<lambda>ms. do {
     a \<leftarrow> dec_field dec_num ''additions'' ms;
     d \<leftarrow> dec_field dec_num ''deletions'' ms;
     t \<leftarrow> dec_field dec_num ''total'' ms;
     Some \<lparr>stat_additions = a, stat_deletions = d, stat_total = t\<rparr>
   })"

definition dec_commit :: "(string \<Rightarrow> time option) \<Rightarrow> json \<Rightarrow> commit option" where
  "dec_commit tp = dec_obj (\<lambda>ms. do {
     sha \<leftarrow> dec_field dec_str ''sha'' ms;
     msg \<leftarrow> dec_field dec_str ''message'' ms;
     a \<leftarrow> dec_field dec_author ''author'' ms;
     d \<leftarrow> dec_field (dec_time tp) ''date'' ms;
     st \<leftarrow> dec_field dec_commit_stats ''stats'' ms;
     Some \<lparr>commit_sha = sha, commit_message = msg, commit_author = a, commit_date = d,
           commit_stats = st\<rparr>
   })"

definition dec_branch :: "(string \<Rightarrow> time option) \<Rightarrow> json \<Rightarrow> branch option" where
  "dec_branch tp = dec_obj (\<lambda>ms. do {
     n \<leftarrow> dec_field dec_str ''name'' ms;
     sha \<leftarrow> dec_field dec_str ''sha'' ms;
     cs \<leftarrow> dec_field (dec_list (dec_commit tp)) ''commits'' ms;
     Some \<lparr>branch_name = n, branch_sha = sha, branch_commits = cs\<rparr>
   })"

definition dec_repository :: "(string \<Rightarrow> time option) \<Rightarrow> json \<Rightarrow> repository option" where
  "dec_repository tp = dec_obj (\<lambda>ms. do {
     n \<leftarrow> dec_field dec_str ''name'' ms;
     fn \<leftarrow> dec_field dec_str ''full_name'' ms;
     u \<leftarrow> dec_field dec_str ''url'' ms;
     db \<leftarrow> dec_field dec_str ''default_branch'' ms;
     bs \<leftarrow> dec_field (dec_list (dec_branch tp)) ''branches'' ms;
     Some \<lparr>repo_name = n, repo_full_name = fn, repo_url = u, repo_default_branch = db,
           repo_branches = bs\<rparr>
   })"

definition dec_period :: "(string \<Rightarrow> time option) \<Rightarrow> json \<Rightarrow> period option" where
  "dec_period tp = dec_obj (\<lambda>ms. do {
     s \<leftarrow> dec_field (dec_time tp) ''since'' ms;
     u \<leftarrow> dec_field (dec_time tp) ''until'' ms;
     Some \<lparr>period_since = s, period_until = u\<rparr>
   })"

definition dec_repository_stats :: "json \<Rightarrow> repository_stats option" where
  "dec_repository_stats = dec_obj (\<lambda>ms. do {
     c \<leftarrow> dec_field dec_num ''commits'' ms;
     a \<leftarrow> dec_field dec_num ''additions'' ms;
     d \<leftarrow> dec_field dec_num ''deletions'' ms;
     Some \<lparr>rs_commits = c, rs_additions = a, rs_deletions = d\<rparr>
   })"

definition dec_contributor :: "json \<Rightarrow> contributor_stats option" where
  "dec_contributor = dec_obj (\<lambda>ms. do {
     n \<leftarrow> dec_field dec_str ''name'' ms;
     e \<leftarrow> dec_field dec_str ''email'' ms;
     l \<leftarrow> dec_field dec_str ''login'' ms;
     tc \<leftarrow> dec_field dec_num ''total_commits'' ms;
     ta \<leftarrow> dec_field dec_num ''total_additions'' ms;
     td \<leftarrow> dec_field dec_num ''total_deletions'' ms;
     rs \<leftarrow> dec_field (dec_map dec_repository_stats) ''repositories'' ms;
     Some \<lparr>cs_name = n, cs_email = e, cs_login = l, total_commits = tc, total_additions = ta,
           total_deletions = td, cs_repositories = rs\<rparr>
   })"

definition dec_report :: "(string \<Rightarrow> time option) \<Rightarrow> json \<Rightarrow> report option" where
  "dec_report tp = dec_obj (\<lambda>ms. do {
     t \<leftarrow> dec_field dec_str ''target'' ms;
     p \<leftarrow> dec_field (dec_period tp) ''period'' ms;
     rs \<leftarrow> dec_field (dec_list (dec_repository tp)) ''repositories'' ms;
     s \<leftarrow> dec_field (dec_map dec_contributor) ''summary'' ms;
     Some \<lparr>report_target = t, report_period = p, report_repositories = rs, report_summary = s\<rparr>
   })"

text \<open>Reading the bytes: parse, then decode.\<close>

definition decode_output :: "(string \<Rightarrow> time option) \<Rightarrow> string \<Rightarrow> report option" where
  "decode_output tp s = json_parse s \<bind> dec_report tp"

text \<open>\<open>tp\<close> reads back every time \<open>tf\<close> formats.\<close>

definition inverts :: "(string \<Rightarrow> time option) \<Rightarrow> (time \<Rightarrow> string option) \<Rightarrow> bool" where
  "inverts tp tf \<longleftrightarrow> (\<forall>t d. tf t = Some d \<longrightarrow> tp d = Some t)"

section \<open>Fixtures\<close>

text \<open>An injective formatter of times and its parser, for the round trip of the scenario.\<close>

definition tally_time :: "time \<Rightarrow> string option" where
  "tally_time t = Some (if 0 \<le> t then replicate (nat t) CHR ''p'' else replicate (nat (- t)) CHR ''n'')"

definition tally_parse :: "string \<Rightarrow> time option" where
  "tally_parse d =
     (if d = replicate (length d) CHR ''p'' then Some (int (length d))
      else if d = replicate (length d) CHR ''n'' then Some (- int (length d)) else None)"

lemmas dec_defs = dec_str_def dec_num_def dec_time_def dec_obj_def dec_field_def

section \<open>Lemmas\<close>

lemma those_map_inverse: "(\<forall>x \<in> set xs. f x = Some (h x)) \<Longrightarrow> those (map f xs) = Some (map h xs)"
  by (induction xs) simp_all

lemma map_of_restrict_dom:
  assumes "finite (dom m)"
  shows "map_of (map (\<lambda>k. (k, the (m k))) (sorted_list_of_set (dom m))) = m"
proof
  fix k
  show "map_of (map (\<lambda>k. (k, the (m k))) (sorted_list_of_set (dom m))) k = m k"
    using assms by (auto simp: map_of_map_restrict restrict_map_def dom_def)
qed

lemma dec_map_json_map:
  assumes "finite (dom m)" and "\<forall>v \<in> ran m. g (f v) = Some v"
  shows "dec_map g (json_map f m) = Some m"
proof -
  have "\<forall>k \<in> set (sorted_list_of_set (dom m)).
          (\<lambda>(k, v). map_option (Pair k) (g v)) (k, f (the (m k))) = Some (k, the (m k))"
    using assms by (auto simp: ranI)
  then have "those (map (\<lambda>(k, v). map_option (Pair k) (g v)) (map (\<lambda>k. (k, f (the (m k)))) (sorted_list_of_set (dom m))))
             = Some (map (\<lambda>k. (k, the (m k))) (sorted_list_of_set (dom m)))"
    by (simp add: comp_def those_map_inverse)
  then show ?thesis
    by (simp add: dec_map_def json_map_def map_of_restrict_dom [OF assms(1)])
qed

lemma dec_list_json_slice:
  assumes "json_slice f xs = Some j" and "\<forall>x \<in> set xs. \<forall>y. f x = Some y \<longrightarrow> g y = Some x"
  shows "dec_list g j = Some xs"
proof (cases "xs = []")
  case True
  with assms show ?thesis by (simp add: json_slice_def dec_list_def)
next
  case False
  with assms(1) obtain ys where ys: "those (map f xs) = Some ys" and j: "j = JArr ys"
    by (auto simp: json_slice_def)
  have "those (map g ys) = Some xs" using ys assms(2)
  proof (induction xs arbitrary: ys)
    case (Cons x xs)
    then show ?case by (auto split: option.splits)
  qed simp
  with j show ?thesis by (simp add: dec_list_def)
qed

lemma dec_author_json: "dec_author (json_author a) = Some a"
  by (simp add: dec_author_def json_author_def dec_defs)

lemma dec_commit_stats_json: "dec_commit_stats (json_commit_stats s) = Some s"
  by (simp add: dec_commit_stats_def json_commit_stats_def dec_defs)

lemma dec_commit_json:
  "inverts tp tf \<Longrightarrow> json_commit tf c = Some y \<Longrightarrow> dec_commit tp y = Some c"
  by (auto simp: dec_commit_def json_commit_def dec_defs inverts_def dec_author_json
                 dec_commit_stats_json)

lemma dec_branch_json:
  assumes "inverts tp tf" and "json_branch tf b = Some y"
  shows "dec_branch tp y = Some b"
proof -
  from assms(2) obtain cs where cs: "json_slice (json_commit tf) (branch_commits b) = Some cs"
    and y: "y = JObj [(''name'', JStr (branch_name b)), (''sha'', JStr (branch_sha b)), (''commits'', cs)]"
    by (auto simp: json_branch_def)
  have "dec_list (dec_commit tp) cs = Some (branch_commits b)"
    using cs by (rule dec_list_json_slice) (blast intro: dec_commit_json [OF assms(1)])
  then show ?thesis by (simp add: y dec_branch_def dec_defs)
qed

lemma dec_repository_json:
  assumes "inverts tp tf" and "json_repository tf r = Some y"
  shows "dec_repository tp y = Some r"
proof -
  from assms(2) obtain bs where bs: "json_slice (json_branch tf) (repo_branches r) = Some bs"
    and y: "y = JObj [(''name'', JStr (repo_name r)), (''full_name'', JStr (repo_full_name r)),
                      (''url'', JStr (repo_url r)), (''default_branch'', JStr (repo_default_branch r)),
                      (''branches'', bs)]"
    by (auto simp: json_repository_def)
  have "dec_list (dec_branch tp) bs = Some (repo_branches r)"
    using bs by (rule dec_list_json_slice) (blast intro: dec_branch_json [OF assms(1)])
  then show ?thesis by (simp add: y dec_repository_def dec_defs)
qed

lemma dec_period_json:
  "inverts tp tf \<Longrightarrow> json_period tf p = Some y \<Longrightarrow> dec_period tp y = Some p"
  by (auto simp: dec_period_def json_period_def dec_defs inverts_def split: option.splits)

lemma dec_repository_stats_json: "dec_repository_stats (json_repository_stats rs) = Some rs"
  by (simp add: dec_repository_stats_def json_repository_stats_def dec_defs)

lemma dec_contributor_json:
  "finite (dom (cs_repositories st)) \<Longrightarrow> dec_contributor (json_contributor st) = Some st"
  by (simp add: dec_contributor_def json_contributor_def dec_defs dec_map_json_map
                dec_repository_stats_json)

text \<open>The round trip of the encoding, for any report whose maps are finite.\<close>

lemma dec_report_json:
  assumes "inverts tp tf" and "json_report tf rep = Some j"
    and "finite (dom (report_summary rep))"
    and "\<forall>st \<in> ran (report_summary rep). finite (dom (cs_repositories st))"
  shows "dec_report tp j = Some rep"
proof -
  from assms(2) obtain p rs where p: "json_period tf (report_period rep) = Some p"
    and rs: "json_slice (json_repository tf) (report_repositories rep) = Some rs"
    and j: "j = JObj [(''target'', JStr (report_target rep)), (''period'', p), (''repositories'', rs),
                      (''summary'', json_map json_contributor (report_summary rep))]"
    by (auto simp: json_report_def split: option.splits)
  have "dec_list (dec_repository tp) rs = Some (report_repositories rep)"
    using rs by (rule dec_list_json_slice) (blast intro: dec_repository_json [OF assms(1)])
  moreover have "dec_map dec_contributor (json_map json_contributor (report_summary rep))
                 = Some (report_summary rep)"
    using assms(3,4) by (simp add: dec_map_json_map dec_contributor_json)
  ultimately show ?thesis
    using dec_period_json [OF assms(1) p] by (simp add: j dec_report_def dec_defs)
qed

lemma tally_inverts: "inverts tally_parse tally_time"
  by (auto simp: inverts_def tally_time_def tally_parse_def)

lemma report_wf_finite:
  assumes "report_wf rep"
  shows "finite (dom (report_summary rep))"
    and "\<forall>st \<in> ran (report_summary rep). finite (dom (cs_repositories st))"
  using assms by (auto simp: report_wf_def ran_def contributor_ok_def)

section \<open>The report survives its JSON encoding\<close>

text \<open>
  C4 (roundtrip): the bytes \<open>outputJSON\<close> writes for a report \<open>GenerateReport\<close>
  returned decode, member by member after the \<open>json\<close> tags, to that same report,
  when the time parser reads back what the time formatter wrote: no field is lost,
  renamed or swapped, every repository, branch and commit comes back in its order, an
  empty list comes back empty from its \<open>null\<close>, and the summary comes back with every
  contributor and every per-repository entry.
\<close>

theorem json_output_decodes:
  assumes "generate_report api target since until (Inr rep)"
    and "json_output tf rep = Some s" and "inverts tp tf"
  shows "decode_output tp s = Some rep"
proof -
  from assms(1) have wf: "report_wf rep" by (rule generate_report_InrE) (simp add: report_of_wf)
  from assms(2) obtain j where j: "json_report tf rep = Some j" and s: "s = json_text 0 j"
    by (auto simp: json_output_def)
  have "json_parse s = Some j" using json_output_roundtrip [OF assms(2)] j by simp
  moreover have "dec_report tp j = Some rep"
    using dec_report_json [OF assms(3) j report_wf_finite [OF wf]] .
  ultimately show ?thesis by (simp add: decode_output_def)
qed

theorem json_output_decodes_witness:
  "\<exists>s. json_output tally_time (report_of ''owner'' 0 1 [demo_processed1]) = Some s
        \<and> decode_output tally_parse s = Some (report_of ''owner'' 0 1 [demo_processed1])"
proof -
  obtain res where g: "generate_report demo_api ''owner'' 0 1 res" using demo_report_exists by blast
  then have g': "generate_report demo_api ''owner'' 0 1 (Inr (report_of ''owner'' 0 1 [demo_processed1]))"
    using demo_report_unique [OF g] by simp
  obtain s where s: "json_output tally_time (report_of ''owner'' 0 1 [demo_processed1]) = Some s"
    using json_output_total [of tally_time] by (fastforce simp: tally_time_def)
  with json_output_decodes [OF g' s tally_inverts] show ?thesis by blast
qed

end
