(* ===== verification/Spec2Isabelle.thy ===== *)
theory Spec2Isabelle
  imports CLI ReporterTests JsonDecode
begin

text \<open>
  \<^bold>\<open>A verification development for ghreporting.\<close>

  ghreporting lists the repositories of a GitHub user or organisation, fetches the
  commits of a bounded set of branches of each repository within a time window through
  a pool of worker goroutines, and rolls them up into per-contributor statistics. The
  reporter sources of \<^verbatim>\<open>internal/reporter\<close> (\<open>reporter.go\<close> and its test) are
  staged inside \<^verbatim>\<open>src/internal/models/types.go\<close> after the models package, from
  line 75 on; line numbers below refer to that file unless \<^verbatim>\<open>github.go\<close> is named.

  \<^bold>\<open>Theories, leaves first.\<close>
  \<^item> \<open>Prelude\<close>: the types \<open>go_int = 64 word\<close> (Go's \<open>int\<close>, so counters
    wrap as in Go) and \<open>time = int\<close>, and the generic lemmas on lists,
    \<open>List.map_filter\<close>, folds, sums over map domains, multisets and words.
  \<^item> \<open>Models\<close>: the structs of \<^verbatim>\<open>internal/models\<close> (lines 1--74) as records, one field
    per struct field, \<open>map[string]T\<close> as \<open>string \<rightharpoonup> T\<close>, and the datatype
    \<open>error\<close> with one constructor per \<open>fmt.Errorf\<close> of the program and one for
    the error \<open>json.MarshalIndent\<close> returns.
  \<^item> \<open>BranchSelect\<close>: \<open>selectBranchesToProcess\<close> (lines 462--490) as
    \<open>select_branches_to_process\<close>, its \<open>map[string]bool\<close> a function to
    \<open>bool\<close>, its search loops \<open>find\<close>, its outer loop a \<open>fold\<close> of
    \<open>select_important\<close>.
  \<^item> \<open>Aggregator\<close>: \<open>getAuthorKey\<close> and \<open>generateSummary\<close> (lines 492--539) as
    \<open>get_author_key\<close> and three nested \<open>fold\<close>s of \<open>add_commit\<close>, the loop body.
  \<^item> \<open>Client\<close>: the GitHub client of \<^verbatim>\<open>src/internal/client/github.go\<close>. The SDK is
    a record \<open>github_api\<close> of functions returning one page (items and
    \<open>NextPage\<close>) or an SDK error; the pagination loop is \<open>fetch_pages\<close>, a
    \<open>partial_function (option)\<close> (\<open>None\<close>: a provider whose page links never end
    makes the loop run forever), specified by the inductive chain of pages
    \<open>pages_chain\<close> and proved against it through a fuel version \<open>fetch_fuel\<close>; on
    top of it
    \<open>list_repositories\<close> (organisation first, user on any error),
    \<open>list_branches\<close>, \<open>list_commits\<close> with \<open>commit_details\<close> (a failing
    \<open>GetCommit\<close> drops the commit) and the conversions. \<open>NewGitHubClient\<close> is
    \<open>new_github_client\<close>, the choice of an OAuth2 or anonymous transport.
  \<^item> \<open>RepoProcessor\<close>: \<open>processRepository\<close> (lines 426--460) as
    \<open>process_repository\<close>, with \<open>strings.Split\<close> as \<open>split_on\<close> and the branch
    loop as \<open>fetch_branches\<close>; its result is an option since the client calls may not
    return.
  \<^item> \<open>Coordinator\<close>: the worker pool of \<open>GenerateReport\<close> and
    \<open>processRepositoryWorker\<close> (lines 341--424) as the inductive step relation
    \<open>pool_step proc\<close> on a record \<open>pool\<close> holding the three channel buffers, the
    closing flags, the workers' states and the collected lists; one rule per move of
    the sender, a worker, the closer or the collector, the processing function a
    parameter \<open>proc\<close>. \<open>pool_reach\<close> is reachability from \<open>pool_init\<close>.
  \<^item> \<open>Report\<close>: the \<open>Reporter\<close> struct and \<open>NewReporter\<close> (lines 322--329) as the
    record \<open>reporter\<close> and \<open>new_reporter\<close>; \<open>GenerateReport\<close> (lines 332--411) as the relation
    \<open>generate_report\<close> between the inputs and each result some interleaving gives,
    and \<open>report_of\<close> for the report built from the collected repositories.
  \<^item> \<open>Fmt\<close>: \<open>%d\<close> (and \<open>strconv.AppendInt\<close>) as \<open>fmt_int\<close>, with a reader
    \<open>parse_int\<close> of the digits it writes.
  \<^item> \<open>Json\<close>: \<open>outputJSON\<close> (lines 555--567) as \<open>json_output\<close>, the bytes
    \<open>json.MarshalIndent(report, "", "  ")\<close> returns: each struct a JSON object with
    one member per field named by its tag (\<open>json_report\<close>, \<open>json_repository\<close>,
    ...), \<open>nil\<close> slices as \<open>null\<close> (\<open>json_slice\<close>), map members in byte order
    of their keys (\<open>json_map\<close>), strings escaped as \<open>encoding/json\<close> escapes them
    (\<open>json_escape\<close>), the two-space layout (\<open>json_text\<close>); the RFC 3339 encoding
    of times is a parameter that may fail. A JSON reader (\<open>json_parse\<close>, with fuel
    the length of its input) is the specification side.
  \<^item> \<open>JsonDecode\<close>: a decoder from the JSON text back to a \<open>report\<close>, member by
    member after the struct tags (\<open>decode_output\<close>), with a time parser
    \<open>tp\<close>; it is specification only, the program has no decoder.
  \<^item> \<open>Output\<close>: \<open>OutputReport\<close> and the CSV and text writers (lines 541--692)
    as \<open>output_report\<close> over \<open>output_json\<close>, \<open>output_csv\<close> and
    \<open>output_text\<close>, down to the strings written (\<open>json_output\<close>,
    \<open>csv_output\<close>, \<open>text_output\<close>) and where (\<open>sink\<close>: standard output
    when \<open>outputFile\<close> is empty, else that file, opened by \<open>open_output\<close>). Map
    iteration orders, the result of \<open>sort.Slice\<close>, the formatting of times and
    what the operating system answers (\<open>os.Create\<close>, \<open>os.WriteFile\<close>, the first
    failing \<open>writer.Write\<close>) are parameters (\<open>output_choices\<close>); every error the
    writers return is a branch, the ones they drop are dropped. The orders are constrained by
    \<open>csv_choices_ok\<close> and \<open>text_choices_ok\<close> to what Go guarantees: every key
    once, and no element followed by a heavier one, weights compared as wrapped signed
    64-bit sums.
  \<^item> \<open>CLI\<close>: \<open>main\<close> of \<^verbatim>\<open>src/main.go\<close> as the relation \<open>cli_run\<close> from the
    flags (\<open>cli_flags\<close>) and what the environment answers (\<open>cli_env\<close>: the token
    variable, the clock, \<open>time.Parse\<close>, the file system, the provider a client with the
    token reaches) to the exit and the output written; it composes \<open>generate_report\<close>
    and \<open>output_report\<close> on the \<open>-output\<close> and \<open>-format\<close> flags, the writers
    formatting times and meeting the file system as the environment does
    (\<open>env_choices\<close>).
  \<^item> \<open>ReporterTests\<close>: the Go unit tests of the reporter (lines 75--302) as functions
    returning the failure messages each test would print; the model passes all five:
    \<open>TestGetAuthorKey\<close>, \<open>TestSelectBranchesToProcess\<close> (which does not check the
    order of the selection, so it passes although the order differs from the spec's
    scenario), \<open>TestGenerateSummary\<close>, \<open>TestOutputJSON\<close> (for every time
    formatter that writes the test's dates) and \<open>TestOutputText\<close>.

  \<^bold>\<open>What is proved.\<close>
  \<^item> Aggregator (C1--C3): \<open>generate_summary\<close> refines the specification
    \<open>summary_spec\<close>, which builds each contributor from exactly the commits with its
    key (C1); totals are the sums of the per-repository counters (C2); the counters do
    not depend on the order of the repositories (C3). All equations hold with 64-bit
    wrap-around. That the identity fields do depend on it, and the test scenario, are
    lemmas (\<open>summary_identity_depends_on_order\<close>, \<open>generate_summary_scenario\<close>).
  \<^item> JSON round trip (C4): the bytes \<open>outputJSON\<close> writes for a report
    \<open>GenerateReport\<close> returned decode to that report, given a time parser that
    inverts the formatter. The proof composes the reader lemma
    \<open>json_output_roundtrip\<close> (by induction over \<open>json_text\<close>: the reader consumes
    each printed value and stops at the following delimiter; strings read back through
    every escape) with one decoding lemma per struct, and the finiteness of the maps
    of a well-formed report. Lemmas of \<open>Json\<close>: empty lists are written \<open>null\<close>
    (\<open>json_output_nil_slices\<close>), escaping leaves no control byte and none of
    \<open><\<close>, \<open>>\<close>, \<open>&\<close> (\<open>json_escape_html_safe\<close>).
  \<^item> Branch selector (C5, C6, C8): a closed form (C5), invariance of the selected
    names under permutation and duplication (C6), at most seven distinct branches, all
    from the input (C8); the spec's scenario and idempotence are lemmas.
  \<^item> Worker bound (C7): in every reachable state of the pool at most
    \<open>min(10, len(repos))\<close> repositories are processed at once.
  \<^item> Client (C9--C13): the pagination loop returns when page links increase up to a
    last page \<open>N\<close> (C9, by the fuel bound \<open>N + 1\<close>: each request either ends
    the loop or moves to a larger page at most \<open>N\<close>); it returns exactly the result
    the chain of pages \<open>pages_chain\<close> specifies (C10); the error of
    \<open>ListRepositories\<close> (C11); its repositories are exactly the converted unarchived
    ones of the listing it used (C12); the commits of \<open>ListCommits\<close> are the listed
    ones whose \<open>GetCommit\<close> succeeded, with its statistics, the total unchecked (C13).
  \<^item> Repository processor (C14--C17): the malformed-name error exactly when the name
    has no single \<open>/\<close> (C14); the only errors (C15); the result on success, failing
    branches skipped (C16); termination under bounded pages (C17). The
    \<open>strings.Split\<close> round trip is a lemma.
  \<^item> Worker pool (C18--C22), for any processing function: when the collector ends,
    it has every success and every wrapped error exactly once (C18, from the invariant
    \<open>pool_inv\<close>: no repository is lost or duplicated between input, channels,
    workers and collected lists, proved by rule induction); no send blocks, since the
    buffers have capacity \<open>len(repos)\<close> (C19); no reachable unfinished state is
    stuck when every processing call returns (C20); every run has at most
    \<open>5 * len(repos) + 4\<close> moves (C21, by the weight \<open>pool_measure\<close>, which
    every move decreases); a finished state is reachable (C22).
  \<^item> Report (C23--C27, C32): the content of a report (C23); its only error is a
    failed repository listing (C24); when every repository fails it still returns the
    empty report (C25); it returns under bounded pages (C26); the end-to-end scenario on
    the provider \<open>demo_api\<close> of theory \<open>Client\<close> (C27); every report is
    well-formed: the summary has exactly the author keys of its commits, consistent
    totals, identity fields that give back the key, and only the report's
    repositories (C32). That its counters do not depend on the interleaving is a lemma.
  \<^item> Output (C28--C31): \<open>OutputReport\<close> fails exactly on an unsupported format, a
    failed marshalling, a failed \<open>os.WriteFile\<close> or \<open>os.Create\<close>, and a failed
    CSV write, each with its error (C28); when it succeeds it wrote the format's
    text to the named file or to standard output (C29); the CSV rows are one record
    per contributor and repository, each once, whatever the iteration order (C30); the
    sort key wraps, so a contributor with \<open>2^63\<close> changed lines is listed last
    (C31).
  \<^item> Command line (C33, C34): the usage exit without a target, and an unsupported
    format reported only after the whole report was fetched (C33); the whole program
    on the scenario provider, down to the JSON text printed (C34).

  \<^bold>\<open>Bounds and fuel.\<close> \<open>fetch_pages\<close> has no fuel: not returning is \<open>None\<close>,
  and termination is proved for providers whose page links increase up to a last page
  \<open>N\<close>, where fuel \<open>N + 1\<close> suffices (C9). The JSON reader's fuel is the length of
  its input, which bounds the nesting it can meet. The pool's runs are bounded by
  \<open>5 * len(repos) + 4\<close> moves: every move decreases the weight \<open>pool_measure\<close>
  of the state, which counts the work left for each repository in the input, the
  channels and the workers, and the closings still to happen.

  \<^bold>\<open>Not modelled.\<close> The flag parser, \<open>time.Parse\<close> and the clock used by
  \<^verbatim>\<open>main.go\<close> (their answers are the fields of \<open>cli_env\<close>); the HTTP
  transport, authentication, rate limiting and JSON decoding of the GitHub SDK (its
  results are the parameters of \<open>github_api\<close>); \<open>context\<close> cancellation (a
  cancelled call is one more SDK error); logging; the quoting of \<open>csv.Writer\<close>
  (the CSV writer's output is its list of records), \<open>Time.Format\<close> and
  \<open>Time.MarshalJSON\<close> (parameters of the writers), the replacement of invalid UTF-8
  by \<open>encoding/json\<close> (strings are taken to be valid UTF-8, as the SDK decodes them),
  the distinction between a \<open>nil\<close> and an empty non-\<open>nil\<close> slice (the program only
  builds \<open>nil\<close> ones; the one in \<open>TestOutputJSON\<close> is written \<open>null\<close> by the
  model and \<open>[]\<close> by Go, which the test does not check); the bytes a failed CSV
  write leaves in the file (the model returns only the error); the package and import
  clauses, the \<open>GitHubClient\<close> wrapper struct (the model passes the provider the
  client reaches directly), and the Makefile staged after \<^verbatim>\<open>main.go\<close>.
\<close>

end
